theory Spec2Isabelle
  imports Main "HOL-Library.AList"
begin

section \<open>Python values, objects and errors\<close>

text \<open>
  The module \<open>hitl_implementation.py\<close> works on Python dicts and lists that are shared
  between the caller and the callee. Immutable values (\<open>None\<close>, booleans, integers,
  strings) are modelled by value; every list and dict is an object in a store and is
  referred to by its address, so that a method which changes a list in place changes it
  for everyone who holds the reference. The store is a list of objects, an address is an
  index into it, and creating an object appends to the store. Characters stand for code
  points below 256; floating-point numbers are left out of both value types.

  Every exception the source can raise is a value of \<open>error\<close>; a function that can
  raise returns \<open>error + 'a\<close>, with \<open>Inl\<close> for the exception.
\<close>

datatype error =
    KeyError string
  | TypeError
  | ValueError
  | AttributeError
  | IndexError
  | EOFError
  | JSONDecodeError

datatype json =
    JNull
  | JBool bool
  | JNum int
  | JStr string
  | JArr "json list"
  | JObj "(string \<times> json) list"

datatype pyval = VNone | VBool bool | VInt int | VStr string | VRef nat

datatype pyobj = OList "pyval list" | ODict "(string \<times> pyval) list"

type_synonym heap = "pyobj list"

text \<open>
  A review decision is the dict \<open>{"type": "approve"}\<close>, \<open>{"type": "reject"}\<close> or
  \<open>{"type": "edit", "edited_action": {"name": n, "args": a}}\<close>; the decision dicts are
  created by the interface and never changed afterwards, so they are modelled by value:
  \<open>Edit n a\<close> carries the name and the arguments of the edited action.
\<close>

datatype 'v decision = Approve | Reject | Edit 'v 'v

text \<open>
  Standard input is a list of events: a line typed at the terminal, or an end-of-input
  signal (Ctrl+D). \<open>input()\<close> raises \<open>EOFError\<close> on the signal and on an exhausted stream.
\<close>

datatype inp = Line string | EndOfInput

record world =
  heap :: heap
  stdin :: "inp list"

text \<open>
  Library and operating-system services the module calls but does not define:
  \<open>json.loads\<close> (\<open>None\<close> stands for \<open>JSONDecodeError\<close>), the external editor started
  by \<open>os.system\<close> on the temporary file (from the text written to the text read back),
  and \<open>str()\<close> as used by an f-string.
\<close>

record lib =
  json_loads :: "string \<Rightarrow> json option"
  run_editor :: "string \<Rightarrow> string"
  py_str :: "heap \<Rightarrow> pyval \<Rightarrow> string"

record review_config =
  action_name :: string
  allowed_decisions :: "string list option"

text \<open>\<open>str.strip()\<close>: the characters Python counts as whitespace, below code point 256.\<close>

abbreviation LF :: char where
  "LF \<equiv> CHR 0x0A"

definition is_space :: "char \<Rightarrow> bool" where
  "is_space c =
     (let n = (of_char c :: nat)
      in (9 \<le> n \<and> n \<le> 13) \<or> (28 \<le> n \<and> n \<le> 32) \<or> n = 133 \<or> n = 160)"

definition strip :: "string \<Rightarrow> string" where
  "strip s = rev (dropWhile is_space (rev (dropWhile is_space s)))"

text \<open>
  \<open>int(s)\<close> for a string, as in Python 3.11 and later with the default limit on the number
  of digits: surrounding whitespace is dropped, an optional sign follows, then decimal
  digits, where single underscores may separate digits. The whitespace \<open>int\<close> drops is
  narrower than that of \<open>str.strip()\<close>: the separators with code points 28 to 31 are not
  part of it. A text with more than 4300 digits, and anything else outside this grammar,
  raises \<open>ValueError\<close>, here \<open>None\<close>.
\<close>

definition is_int_space :: "char \<Rightarrow> bool" where
  "is_int_space c =
     (let n = (of_char c :: nat)
      in (9 \<le> n \<and> n \<le> 13) \<or> n = 32 \<or> n = 133 \<or> n = 160)"

definition int_strip :: "string \<Rightarrow> string" where
  "int_strip s = rev (dropWhile is_int_space (rev (dropWhile is_int_space s)))"

definition is_digit :: "char \<Rightarrow> bool" where
  "is_digit c = (48 \<le> (of_char c :: nat) \<and> (of_char c :: nat) \<le> 57)"

definition max_str_digits :: nat where
  "max_str_digits = 4300"

fun int_digits :: "nat \<Rightarrow> bool \<Rightarrow> string \<Rightarrow> nat option" where
  "int_digits acc after_digit [] = (if after_digit then Some acc else None)"
| "int_digits acc after_digit (c # cs) =
     (if is_digit c then int_digits (acc * 10 + (of_char c - 48)) True cs
      else if c = CHR ''_'' \<and> after_digit then int_digits acc False cs
      else None)"

definition py_int :: "string \<Rightarrow> int option" where
  "py_int s =
     (case int_strip s of
        [] \<Rightarrow> None
      | c # cs \<Rightarrow>
          (let body = (if c = CHR ''-'' \<or> c = CHR ''+'' then cs else c # cs)
           in if max_str_digits < length (filter is_digit body) then None
              else if c = CHR ''-'' then map_option (\<lambda>n. - int n) (int_digits 0 False body)
              else map_option int (int_digits 0 False body)))"

text \<open>\<open>str(n)\<close> for an integer, as an f-string renders it.\<close>

function str_nat :: "nat \<Rightarrow> string" where
  "str_nat n =
     (if n < 10 then [char_of (48 + n)]
      else str_nat (n div 10) @ [char_of (48 + n mod 10)])"
  by pat_completeness auto
termination
  by (relation "measure id") auto

definition str_int :: "int \<Rightarrow> string" where
  "str_int i = (if i < 0 then CHR ''-'' # str_nat (nat (- i)) else str_nat (nat i))"

text \<open>\<open>'\\n'.join(lines)\<close>\<close>

fun join_lines :: "string list \<Rightarrow> string" where
  "join_lines [] = []"
| "join_lines [l] = l"
| "join_lines (l # ls) = l @ [LF] @ join_lines ls"

text \<open>
  Operations on objects. \<open>getitem h v k\<close> is \<open>v[k]\<close> for a string key: only a dict can be
  subscripted by a string; a missing key raises \<open>KeyError\<close>, every other value
  \<open>TypeError\<close>. \<open>py_len\<close> is \<open>len(v)\<close>, \<open>py_iter\<close> the items a \<open>for\<close> loop visits,
  \<open>list_append\<close>, \<open>list_pop\<close> and \<open>list_get\<close> are \<open>v.append(x)\<close>, \<open>v.pop(i)\<close> and
  \<open>v[i]\<close> for \<open>i \<ge> 0\<close>, \<open>setitem\<close> is \<open>v[k] = x\<close>. The in-place operations return the
  store with the object at the same address replaced.
\<close>

fun getitem :: "heap \<Rightarrow> pyval \<Rightarrow> string \<Rightarrow> error + pyval" where
  "getitem h (VRef a) k =
     (if a < length h then
        (case h ! a of
           ODict kvs \<Rightarrow> (case map_of kvs k of Some v \<Rightarrow> Inr v | None \<Rightarrow> Inl (KeyError k))
         | OList xs \<Rightarrow> Inl TypeError)
      else Inl TypeError)"
| "getitem h v k = Inl TypeError"

fun py_len :: "heap \<Rightarrow> pyval \<Rightarrow> error + nat" where
  "py_len h (VRef a) =
     (if a < length h then
        (case h ! a of ODict kvs \<Rightarrow> Inr (length kvs) | OList xs \<Rightarrow> Inr (length xs))
      else Inl TypeError)"
| "py_len h (VStr s) = Inr (length s)"
| "py_len h v = Inl TypeError"

fun py_iter :: "heap \<Rightarrow> pyval \<Rightarrow> error + pyval list" where
  "py_iter h (VRef a) =
     (if a < length h then
        (case h ! a of ODict kvs \<Rightarrow> Inr (map (\<lambda>kv. VStr (fst kv)) kvs) | OList xs \<Rightarrow> Inr xs)
      else Inl TypeError)"
| "py_iter h (VStr s) = Inr (map (\<lambda>c. VStr [c]) s)"
| "py_iter h v = Inl TypeError"

fun list_append :: "heap \<Rightarrow> pyval \<Rightarrow> pyval \<Rightarrow> error + heap" where
  "list_append h (VRef a) x =
     (if a < length h then
        (case h ! a of OList xs \<Rightarrow> Inr (h[a := OList (xs @ [x])]) | ODict kvs \<Rightarrow> Inl AttributeError)
      else Inl AttributeError)"
| "list_append h v x = Inl AttributeError"

fun list_pop :: "heap \<Rightarrow> pyval \<Rightarrow> nat \<Rightarrow> error + heap" where
  "list_pop h (VRef a) i =
     (if a < length h then
        (case h ! a of
           OList xs \<Rightarrow> (if i < length xs then Inr (h[a := OList (take i xs @ drop (Suc i) xs)])
                        else Inl IndexError)
         | ODict kvs \<Rightarrow> Inl (KeyError (str_nat i)))
      else Inl AttributeError)"
| "list_pop h v i = Inl AttributeError"

fun list_get :: "heap \<Rightarrow> pyval \<Rightarrow> nat \<Rightarrow> error + pyval" where
  "list_get h (VRef a) i =
     (if a < length h then
        (case h ! a of
           OList xs \<Rightarrow> (if i < length xs then Inr (xs ! i) else Inl IndexError)
         | ODict kvs \<Rightarrow> Inl (KeyError (str_nat i)))
      else Inl TypeError)"
| "list_get h (VStr s) i = (if i < length s then Inr (VStr [s ! i]) else Inl IndexError)"
| "list_get h v i = Inl TypeError"

fun setitem :: "heap \<Rightarrow> pyval \<Rightarrow> string \<Rightarrow> pyval \<Rightarrow> error + heap" where
  "setitem h (VRef a) k x =
     (if a < length h then
        (case h ! a of
           ODict kvs \<Rightarrow> Inr (h[a := ODict (AList.update k x kvs)])
         | OList xs \<Rightarrow> Inl TypeError)
      else Inl TypeError)"
| "setitem h v k x = Inl TypeError"

definition alloc :: "pyobj \<Rightarrow> world \<Rightarrow> pyval \<times> world" where
  "alloc ob w = (VRef (length (heap w)), w\<lparr>heap := heap w @ [ob]\<rparr>)"

text \<open>The objects \<open>json.loads\<close> creates for a parsed value are new objects in the store.\<close>

fun alloc_json :: "json \<Rightarrow> heap \<Rightarrow> pyval \<times> heap"
  and alloc_items :: "json list \<Rightarrow> heap \<Rightarrow> pyval list \<times> heap"
  and alloc_fields :: "(string \<times> json) list \<Rightarrow> heap \<Rightarrow> (string \<times> pyval) list \<times> heap"
where
  "alloc_json JNull h = (VNone, h)"
| "alloc_json (JBool b) h = (VBool b, h)"
| "alloc_json (JNum n) h = (VInt n, h)"
| "alloc_json (JStr s) h = (VStr s, h)"
| "alloc_json (JArr xs) h =
     (case alloc_items xs h of (vs, h1) \<Rightarrow> (VRef (length h1), h1 @ [OList vs]))"
| "alloc_json (JObj kvs) h =
     (case alloc_fields kvs h of (fs, h1) \<Rightarrow> (VRef (length h1), h1 @ [ODict fs]))"
| "alloc_items [] h = ([], h)"
| "alloc_items (x # xs) h =
     (case alloc_json x h of (v, h1) \<Rightarrow>
        (case alloc_items xs h1 of (vs, h2) \<Rightarrow> (v # vs, h2)))"
| "alloc_fields [] h = ([], h)"
| "alloc_fields ((k, x) # kvs) h =
     (case alloc_json x h of (v, h1) \<Rightarrow>
        (case alloc_fields kvs h1 of (fs, h2) \<Rightarrow> ((k, v) # fs, h2)))"

text \<open>\<open>input()\<close>, and the loop of \<open>_edit_generic\<close> that reads lines until \<open>EOFError\<close>.\<close>

fun read_line :: "world \<Rightarrow> (error + string) \<times> world" where
  "read_line w =
     (case stdin w of
        [] \<Rightarrow> (Inl EOFError, w)
      | EndOfInput # rest \<Rightarrow> (Inl EOFError, w\<lparr>stdin := rest\<rparr>)
      | Line s # rest \<Rightarrow> (Inr s, w\<lparr>stdin := rest\<rparr>))"

fun read_until_eof :: "inp list \<Rightarrow> string list \<times> inp list" where
  "read_until_eof [] = ([], [])"
| "read_until_eof (EndOfInput # rest) = ([], rest)"
| "read_until_eof (Line s # rest) =
     (case read_until_eof rest of (ls, r) \<Rightarrow> (s # ls, r))"

section \<open>Approval configurations (class ApprovalLevel)\<close>

text \<open>
  Each policy of \<open>hitl_implementation.py\<close> is a Python dict literal from tool name to
  either a plain boolean or a dict \<open>{"allowed_decisions": [...]}\<close>. A dict literal keeps
  its insertion order, so a policy is an association list, in the order of the source.
\<close>

datatype interrupt_on =
    Flag bool
  | AllowedDecisions "string list"

type_synonym approval_level = "(string \<times> interrupt_on) list"

definition high_oversight :: approval_level where
  "high_oversight =
     [(''write_todos'', Flag True),
      (''task'', Flag True),
      (''get_document'', Flag True),
      (''get_document_pages'', Flag True),
      (''write_file'', Flag True),
      (''edit_file'', Flag True)]"

definition moderate_oversight :: approval_level where
  "moderate_oversight =
     [(''write_todos'', Flag True),
      (''task'', Flag True),
      (''get_document'', Flag False),
      (''get_document_pages'', Flag False),
      (''write_file'', Flag True),
      (''edit_file'', AllowedDecisions [''approve'', ''reject''])]"

definition minimal_oversight :: approval_level where
  "minimal_oversight =
     [(''write_todos'', Flag False),
      (''task'', Flag False),
      (''get_document'', Flag False),
      (''get_document_pages'', Flag False),
      (''write_file'', Flag True),
      (''edit_file'', Flag True)]"

definition custom :: "bool \<Rightarrow> bool \<Rightarrow> bool \<Rightarrow> bool \<Rightarrow> approval_level" where
  "custom planning delegation document_access file_operations =
     [(''write_todos'', Flag planning),
      (''task'', Flag delegation),
      (''get_document'', Flag document_access),
      (''get_document_pages'', Flag document_access),
      (''write_file'', Flag file_operations),
      (''edit_file'', Flag file_operations)]"

text \<open>The six action kinds every policy is expected to cover.\<close>

definition action_kinds :: "string set" where
  "action_kinds =
     {''write_todos'', ''task'', ''get_document'', ''get_document_pages'',
      ''write_file'', ''edit_file''}"

section \<open>The command-line review interface (class CLIReviewInterface)\<close>

text \<open>
  The methods keep their names (without the leading underscore). Text that is only
  printed is not part of the model, but every lookup a \<open>print\<close> performs is kept, since it
  can raise. \<open>action_request\<close> is the reference to the caller's dict.

  \<open>_edit_generic\<close>: the arguments are printed, lines are read until end of input and
  parsed; a parse failure gives \<open>Reject\<close>, a parsed value is wrapped into an \<open>Edit\<close>.
\<close>

definition edit_generic :: "lib \<Rightarrow> pyval \<Rightarrow> world \<Rightarrow> (error + pyval decision) \<times> world" where
  "edit_generic lb action_request w =
     (case getitem (heap w) action_request ''args'' of
        Inl e \<Rightarrow> (Inl e, w)
      | Inr shown \<Rightarrow>
          (case read_until_eof (stdin w) of (lines, rest) \<Rightarrow>
             (case json_loads lb (join_lines lines) of
                None \<Rightarrow> (Inr Reject, w\<lparr>stdin := rest\<rparr>)
              | Some parsed \<Rightarrow>
                  (case alloc_json parsed (heap w) of (edited_args, h1) \<Rightarrow>
                     (case getitem h1 action_request ''name'' of
                        Inl e \<Rightarrow> (Inl e, \<lparr>heap = h1, stdin = rest\<rparr>)
                      | Inr nm \<Rightarrow> (Inr (Edit nm edited_args), \<lparr>heap = h1, stdin = rest\<rparr>))))))"

text \<open>
  \<open>_edit_todos\<close>. \<open>todos\<close> is the very list object held by the action request
  (\<open>todos = action_request['args']['todos']\<close>): \<open>append\<close>, \<open>pop\<close> and the assignment of a
  priority act on that object. \<open>show_todos\<close> is the listing loop, which reads
  \<open>todo['task']\<close> and \<open>todo['status']\<close>; \<open>todos_result\<close> is the final \<open>return\<close>, a new
  dict \<open>{"todos": todos}\<close> around the same list.
\<close>

fun show_todos :: "heap \<Rightarrow> pyval list \<Rightarrow> error + unit" where
  "show_todos h [] = Inr ()"
| "show_todos h (todo # rest) =
     (case getitem h todo ''task'' of
        Inl e \<Rightarrow> Inl e
      | Inr t \<Rightarrow>
          (case getitem h todo ''status'' of
             Inl e \<Rightarrow> Inl e
           | Inr s \<Rightarrow> show_todos h rest))"

definition todos_result :: "pyval \<Rightarrow> world \<Rightarrow> (error + pyval decision) \<times> world" where
  "todos_result todos w =
     (case alloc (ODict [(''todos'', todos)]) w of
        (args, w1) \<Rightarrow> (Inr (Edit (VStr ''write_todos'') args), w1))"

definition edit_todos :: "lib \<Rightarrow> pyval \<Rightarrow> world \<Rightarrow> (error + pyval decision) \<times> world" where
  "edit_todos lb action_request w =
     (case getitem (heap w) action_request ''args'' of
        Inl e \<Rightarrow> (Inl e, w)
      | Inr args \<Rightarrow>
     (case getitem (heap w) args ''todos'' of
        Inl e \<Rightarrow> (Inl e, w)
      | Inr todos \<Rightarrow>
     (case py_iter (heap w) todos of
        Inl e \<Rightarrow> (Inl e, w)
      | Inr items \<Rightarrow>
     (case show_todos (heap w) items of
        Inl e \<Rightarrow> (Inl e, w)
      | Inr u \<Rightarrow>
     (case read_line w of
        (Inl e, w1) \<Rightarrow> (Inl e, w1)
      | (Inr answer, w1) \<Rightarrow>
          (let choice = strip answer in
           if choice = ''1'' then
             (case read_line w1 of
                (Inl e, w2) \<Rightarrow> (Inl e, w2)
              | (Inr task, w2) \<Rightarrow>
             (case read_line w2 of
                (Inl e, w3) \<Rightarrow> (Inl e, w3)
              | (Inr p, w3) \<Rightarrow>
                  (let priority = (if strip p = [] then ''medium'' else strip p)
                   in case alloc (ODict [(''task'', VStr task),
                                         (''status'', VStr ''pending''),
                                         (''priority'', VStr priority)]) w3 of
                        (todo, w4) \<Rightarrow>
                          (case list_append (heap w4) todos todo of
                             Inl e \<Rightarrow> (Inl e, w4)
                           | Inr h5 \<Rightarrow> todos_result todos (w4\<lparr>heap := h5\<rparr>)))))
           else if choice = ''2'' then
             (case read_line w1 of
                (Inl e, w2) \<Rightarrow> (Inl e, w2)
              | (Inr number, w2) \<Rightarrow>
             (case py_int number of
                None \<Rightarrow> (Inl ValueError, w2)
              | Some num \<Rightarrow>
             (case py_len (heap w2) todos of
                Inl e \<Rightarrow> (Inl e, w2)
              | Inr n \<Rightarrow>
                  if 1 \<le> num \<and> num \<le> int n then
                    (case list_pop (heap w2) todos (nat (num - 1)) of
                       Inl e \<Rightarrow> (Inl e, w2)
                     | Inr h3 \<Rightarrow> todos_result todos (w2\<lparr>heap := h3\<rparr>))
                  else todos_result todos w2)))
           else if choice = ''3'' then
             (case read_line w1 of
                (Inl e, w2) \<Rightarrow> (Inl e, w2)
              | (Inr number, w2) \<Rightarrow>
             (case py_int number of
                None \<Rightarrow> (Inl ValueError, w2)
              | Some num \<Rightarrow>
             (case py_len (heap w2) todos of
                Inl e \<Rightarrow> (Inl e, w2)
              | Inr n \<Rightarrow>
                  if 1 \<le> num \<and> num \<le> int n then
                    (case read_line w2 of
                       (Inl e, w3) \<Rightarrow> (Inl e, w3)
                     | (Inr priority, w3) \<Rightarrow>
                    (case list_get (heap w3) todos (nat (num - 1)) of
                       Inl e \<Rightarrow> (Inl e, w3)
                     | Inr todo \<Rightarrow>
                    (case setitem (heap w3) todo ''priority'' (VStr priority) of
                       Inl e \<Rightarrow> (Inl e, w3)
                     | Inr h4 \<Rightarrow> todos_result todos (w3\<lparr>heap := h4\<rparr>))))
                  else todos_result todos w2)))
           else if choice = ''4'' then edit_generic lb action_request w1
           else if choice = ''5'' then (Inr Reject, w1)
           else todos_result todos w1))))))"

text \<open>\<open>_edit_task\<close>\<close>

definition edit_task :: "lib \<Rightarrow> pyval \<Rightarrow> world \<Rightarrow> (error + pyval decision) \<times> world" where
  "edit_task lb action_request w =
     (case getitem (heap w) action_request ''args'' of
        Inl e \<Rightarrow> (Inl e, w)
      | Inr args \<Rightarrow>
     (case getitem (heap w) args ''name'' of
        Inl e \<Rightarrow> (Inl e, w)
      | Inr subagent \<Rightarrow>
     (case getitem (heap w) args ''task'' of
        Inl e \<Rightarrow> (Inl e, w)
      | Inr current_task \<Rightarrow>
     (case read_line w of
        (Inl e, w1) \<Rightarrow> (Inl e, w1)
      | (Inr answer, w1) \<Rightarrow>
          (let choice = strip answer in
           if choice = ''1'' then
             (case read_line w1 of
                (Inl e, w2) \<Rightarrow> (Inl e, w2)
              | (Inr additional_context, w2) \<Rightarrow>
                  (let new_task = py_str lb (heap w2) current_task
                         @ [LF, LF] @ ''ADDITIONAL CONTEXT:'' @ [LF] @ additional_context
                   in case alloc (ODict [(''name'', subagent), (''task'', VStr new_task)]) w2 of
                        (new_args, w3) \<Rightarrow> (Inr (Edit (VStr ''task'') new_args), w3)))
           else if choice = ''2'' then
             (case read_line w1 of
                (Inl e, w2) \<Rightarrow> (Inl e, w2)
              | (Inr answer2, w2) \<Rightarrow>
                  (let new_subagent = strip answer2
                   in case alloc (ODict [(''name'', VStr new_subagent),
                                         (''task'', current_task)]) w2 of
                        (new_args, w3) \<Rightarrow> (Inr (Edit (VStr ''task'') new_args), w3)))
           else if choice = ''3'' then edit_generic lb action_request w1
           else (Inr Reject, w1))))))"

text \<open>
  \<open>_edit_file\<close>. \<open>show_content\<close> stands for \<open>len(content)\<close> and \<open>content[:500]\<close>, which
  work for a string and a list (slicing a dict raises \<open>TypeError\<close>, \<open>KeyError\<close> from
  Python 3.12); choice 2 writes the content to a temporary file, which needs a string,
  runs the editor and reads the file back. Failures of the file system are not modelled.
\<close>

fun show_content :: "heap \<Rightarrow> pyval \<Rightarrow> error + unit" where
  "show_content h (VStr s) = Inr ()"
| "show_content h (VRef a) =
     (if a < length h then (case h ! a of OList xs \<Rightarrow> Inr () | ODict kvs \<Rightarrow> Inl TypeError)
      else Inl TypeError)"
| "show_content h v = Inl TypeError"

definition edit_file :: "lib \<Rightarrow> pyval \<Rightarrow> world \<Rightarrow> (error + pyval decision) \<times> world" where
  "edit_file lb action_request w =
     (case getitem (heap w) action_request ''args'' of
        Inl e \<Rightarrow> (Inl e, w)
      | Inr args \<Rightarrow>
     (case getitem (heap w) args ''file_path'' of
        Inl e \<Rightarrow> (Inl e, w)
      | Inr file_path \<Rightarrow>
     (case getitem (heap w) args ''content'' of
        Inl e \<Rightarrow> (Inl e, w)
      | Inr content \<Rightarrow>
     (case show_content (heap w) content of
        Inl e \<Rightarrow> (Inl e, w)
      | Inr u \<Rightarrow>
     (case read_line w of
        (Inl e, w1) \<Rightarrow> (Inl e, w1)
      | (Inr answer, w1) \<Rightarrow>
          (let choice = strip answer in
           if choice = ''1'' then
             (case read_line w1 of
                (Inl e, w2) \<Rightarrow> (Inl e, w2)
              | (Inr answer2, w2) \<Rightarrow>
                  (let new_path = strip answer2
                   in case alloc (ODict [(''file_path'', VStr new_path),
                                         (''content'', content)]) w2 of
                        (new_args, w3) \<Rightarrow> (Inr (Edit (VStr ''write_file'') new_args), w3)))
           else if choice = ''2'' then
             (case content of
                VStr text \<Rightarrow>
                  (let edited_content = run_editor lb text
                   in case alloc (ODict [(''file_path'', file_path),
                                         (''content'', VStr edited_content)]) w1 of
                        (new_args, w2) \<Rightarrow> (Inr (Edit (VStr ''write_file'') new_args), w2))
              | _ \<Rightarrow> (Inl TypeError, w1))
           else if choice = ''3'' then edit_generic lb action_request w1
           else (Inr Reject, w1)))))))"

text \<open>\<open>_handle_edit\<close> dispatches on the tool name.\<close>

definition handle_edit :: "lib \<Rightarrow> pyval \<Rightarrow> world \<Rightarrow> (error + pyval decision) \<times> world" where
  "handle_edit lb action_request w =
     (case getitem (heap w) action_request ''name'' of
        Inl e \<Rightarrow> (Inl e, w)
      | Inr tool_name \<Rightarrow>
          if tool_name = VStr ''write_todos'' then edit_todos lb action_request w
          else if tool_name = VStr ''task'' then edit_task lb action_request w
          else if tool_name = VStr ''write_file'' then edit_file lb action_request w
          else edit_generic lb action_request w)"

text \<open>
  \<open>review_action\<close>: \<open>prompt_decision\<close> is its \<open>while True\<close> loop, which consumes one
  input event per round; \<open>show_context\<close> is the optional context display, where
  \<open>len(context['documents_accessed'])\<close> can raise.
\<close>

fun prompt_decision ::
  "lib \<Rightarrow> pyval \<Rightarrow> string list \<Rightarrow> heap \<Rightarrow> inp list \<Rightarrow> (error + pyval decision) \<times> world"
where
  "prompt_decision lb action_request allowed h [] = (Inl EOFError, \<lparr>heap = h, stdin = []\<rparr>)"
| "prompt_decision lb action_request allowed h (EndOfInput # rest) =
     (Inl EOFError, \<lparr>heap = h, stdin = rest\<rparr>)"
| "prompt_decision lb action_request allowed h (Line answer # rest) =
     (let choice = strip answer in
      if choice = ''1'' \<and> ''approve'' \<in> set allowed then
        (Inr Approve, \<lparr>heap = h, stdin = rest\<rparr>)
      else if choice = ''2'' \<and> ''edit'' \<in> set allowed then
        handle_edit lb action_request \<lparr>heap = h, stdin = rest\<rparr>
      else if choice = ''3'' \<and> ''reject'' \<in> set allowed then
        (Inr Reject, \<lparr>heap = h, stdin = rest\<rparr>)
      else prompt_decision lb action_request allowed h rest)"

definition show_context :: "heap \<Rightarrow> (string \<times> pyval) list option \<Rightarrow> error + unit" where
  "show_context h context =
     (case context of
        None \<Rightarrow> Inr ()
      | Some c \<Rightarrow>
          (case map_of c ''documents_accessed'' of
             None \<Rightarrow> Inr ()
           | Some docs \<Rightarrow> (case py_len h docs of Inl e \<Rightarrow> Inl e | Inr n \<Rightarrow> Inr ())))"

definition cli_review_action ::
  "lib \<Rightarrow> pyval \<Rightarrow> review_config \<Rightarrow> (string \<times> pyval) list option \<Rightarrow> world
     \<Rightarrow> (error + pyval decision) \<times> world"
where
  "cli_review_action lb action_request review_config context w =
     (case getitem (heap w) action_request ''name'' of
        Inl e \<Rightarrow> (Inl e, w)
      | Inr nm \<Rightarrow>
     (case show_context (heap w) context of
        Inl e \<Rightarrow> (Inl e, w)
      | Inr u \<Rightarrow>
     (case getitem (heap w) action_request ''args'' of
        Inl e \<Rightarrow> (Inl e, w)
      | Inr shown \<Rightarrow>
          (let allowed = (case allowed_decisions review_config of
                            Some ds \<Rightarrow> ds
                          | None \<Rightarrow> [''approve'', ''edit'', ''reject''])
           in prompt_decision lb action_request allowed (heap w) (stdin w)))))"


section \<open>Audit logging (class AuditLogger)\<close>

text \<open>
  \<open>log_review\<close> and \<open>get_review_stats\<close> only read their arguments, so action requests and
  decisions are taken by value here. The log file is \<open>None\<close> while it does not exist and
  \<open>Some text\<close> afterwards. \<open>json.dumps\<close>, \<open>json.loads\<close> and the clock
  (\<open>datetime.now().isoformat()\<close>) are parameters.
\<close>

record action_request =
  req_name :: string
  req_args :: json

definition decision_type :: "'v decision \<Rightarrow> string" where
  "decision_type d = (case d of Approve \<Rightarrow> ''approve'' | Reject \<Rightarrow> ''reject'' | Edit n a \<Rightarrow> ''edit'')"

definition log_entry ::
  "string \<Rightarrow> action_request \<Rightarrow> json decision \<Rightarrow> string \<Rightarrow> string \<Rightarrow> json \<Rightarrow> json"
where
  "log_entry now action_request decision reviewer thread_id context =
     JObj [(''timestamp'', JStr now),
           (''thread_id'', JStr thread_id),
           (''reviewer'', JStr reviewer),
           (''action_tool'', JStr (req_name action_request)),
           (''action_args'', req_args action_request),
           (''decision_type'', JStr (decision_type decision)),
           (''edited_args'', (case decision of Edit n a \<Rightarrow> a | _ \<Rightarrow> JNull)),
           (''context'', context)]"

definition log_review ::
  "(json \<Rightarrow> string) \<Rightarrow> string \<Rightarrow> action_request \<Rightarrow> json decision \<Rightarrow> string \<Rightarrow> string \<Rightarrow> json
     \<Rightarrow> string option \<Rightarrow> string option"
where
  "log_review dumps now action_request decision reviewer thread_id context log_file =
     Some ((case log_file of None \<Rightarrow> [] | Some text \<Rightarrow> text)
           @ dumps (log_entry now action_request decision reviewer thread_id context) @ [LF])"

text \<open>
  Reading a text file translates \<open>\\r\\n\<close> and \<open>\\r\<close> to \<open>\\n\<close>; \<open>for line in f\<close> yields
  each line with its terminator, and a last line without one if it is not empty.
\<close>

fun universal_newlines :: "string \<Rightarrow> string" where
  "universal_newlines [] = []"
| "universal_newlines [c] = (if c = CHR 0x0D then [LF] else [c])"
| "universal_newlines (c # d # cs) =
     (if c = CHR 0x0D then
        (if d = LF then LF # universal_newlines cs else LF # universal_newlines (d # cs))
      else c # universal_newlines (d # cs))"

fun split_lines :: "string \<Rightarrow> string \<Rightarrow> string list" where
  "split_lines cur [] = (if cur = [] then [] else [cur])"
| "split_lines cur (c # cs) =
     (if c = LF then (cur @ [c]) # split_lines [] cs else split_lines (cur @ [c]) cs)"

definition file_lines :: "string \<Rightarrow> string list" where
  "file_lines text = split_lines [] (universal_newlines text)"

text \<open>
  Keys of the counting dicts. Python compares \<open>True\<close> equal to \<open>1\<close>, so booleans count
  under the integer key; lists and dicts are unhashable (\<open>TypeError\<close>). \<open>entry_get\<close> is
  \<open>entry[k]\<close> on a parsed line, \<open>bump m k\<close> is \<open>m[k] = m.get(k, 0) + 1\<close>.
\<close>

datatype pykey = KNone | KInt int | KStr string

fun hash_key :: "json \<Rightarrow> error + pykey" where
  "hash_key JNull = Inr KNone"
| "hash_key (JBool b) = Inr (KInt (if b then 1 else 0))"
| "hash_key (JNum n) = Inr (KInt n)"
| "hash_key (JStr s) = Inr (KStr s)"
| "hash_key (JArr xs) = Inl TypeError"
| "hash_key (JObj kvs) = Inl TypeError"

fun entry_get :: "json \<Rightarrow> string \<Rightarrow> error + json" where
  "entry_get (JObj kvs) k = (case map_of kvs k of Some v \<Rightarrow> Inr v | None \<Rightarrow> Inl (KeyError k))"
| "entry_get j k = Inl TypeError"

type_synonym counter = "(pykey \<times> int) list"

definition bump :: "counter \<Rightarrow> pykey \<Rightarrow> counter" where
  "bump m k = AList.update k ((case map_of m k of Some n \<Rightarrow> n | None \<Rightarrow> 0) + 1) m"

record review_stats =
  total_reviews :: int
  by_decision :: counter
  by_tool :: counter
  by_reviewer :: counter

text \<open>The body of the loop over the lines, and the loop itself.\<close>

definition count_field ::
  "json \<Rightarrow> string \<Rightarrow> counter \<Rightarrow> error + counter"
where
  "count_field entry k m =
     (case entry_get entry k of
        Inl e \<Rightarrow> Inl e
      | Inr v \<Rightarrow> (case hash_key v of Inl e \<Rightarrow> Inl e | Inr key \<Rightarrow> Inr (bump m key)))"

definition count_entry :: "json \<Rightarrow> review_stats \<Rightarrow> error + review_stats" where
  "count_entry entry stats =
     (let stats1 = stats\<lparr>total_reviews := total_reviews stats + 1\<rparr> in
      case count_field entry ''decision_type'' (by_decision stats1) of
        Inl e \<Rightarrow> Inl e
      | Inr bd \<Rightarrow>
     (case count_field entry ''action_tool'' (by_tool stats1) of
        Inl e \<Rightarrow> Inl e
      | Inr bt \<Rightarrow>
     (case count_field entry ''reviewer'' (by_reviewer stats1) of
        Inl e \<Rightarrow> Inl e
      | Inr br \<Rightarrow> Inr (stats1\<lparr>by_decision := bd, by_tool := bt, by_reviewer := br\<rparr>))))"

fun replay :: "(string \<Rightarrow> json option) \<Rightarrow> string list \<Rightarrow> review_stats \<Rightarrow> error + review_stats" where
  "replay loads [] stats = Inr stats"
| "replay loads (line # rest) stats =
     (case loads line of
        None \<Rightarrow> Inl JSONDecodeError
      | Some entry \<Rightarrow>
          (case count_entry entry stats of
             Inl e \<Rightarrow> Inl e
           | Inr stats1 \<Rightarrow> replay loads rest stats1))"

definition initial_stats :: review_stats where
  "initial_stats =
     \<lparr>total_reviews = 0,
      by_decision = [(KStr ''approve'', 0), (KStr ''edit'', 0), (KStr ''reject'', 0)],
      by_tool = [],
      by_reviewer = []\<rparr>"

definition get_review_stats ::
  "(string \<Rightarrow> json option) \<Rightarrow> string option \<Rightarrow> error + review_stats option"
where
  "get_review_stats loads log_file =
     (case log_file of
        None \<Rightarrow> Inr None
      | Some text \<Rightarrow>
          (case replay loads (file_lines text) initial_stats of
             Inl e \<Rightarrow> Inl e
           | Inr stats \<Rightarrow> Inr (Some stats)))"

text \<open>
  The backend reads the audit log, \<open>review_audit.jsonl\<close>, for \<open>/api/audit/logs\<close>
  (\<open>get_audit_logs\<close> in \<open>backend/app.py\<close>): it decodes the lines that are not blank,
  \<open>if line.strip()\<close>, and returns the last hundred entries with the number of all of
  them.
\<close>

fun read_logs :: "(string \<Rightarrow> json option) \<Rightarrow> string list \<Rightarrow> json list \<Rightarrow> error + json list" where
  "read_logs loads [] logs = Inr logs"
| "read_logs loads (line # rest) logs =
     (if strip line \<noteq> [] then
        (case loads line of
           None \<Rightarrow> Inl JSONDecodeError
         | Some entry \<Rightarrow> read_logs loads rest (logs @ [entry]))
      else read_logs loads rest logs)"

definition get_audit_logs ::
  "(string \<Rightarrow> json option) \<Rightarrow> string option \<Rightarrow> error + json list \<times> nat"
where
  "get_audit_logs loads audit_file =
     (case audit_file of
        None \<Rightarrow> Inr ([], 0)
      | Some text \<Rightarrow>
          (case read_logs loads (file_lines text) [] of
             Inl e \<Rightarrow> Inl e
           | Inr logs \<Rightarrow> Inr (drop (length logs - 100) logs, length logs)))"

text \<open>
  A sequence of \<open>log_review\<close> calls: each call with its arguments and the time the clock
  shows; \<open>entry_of\<close> is the record the call writes, \<open>log_reviews\<close> performs the calls in
  order, and \<open>counted\<close> is \<open>sum(m.values())\<close> of a counting dict.
\<close>

record review_call =
  call_now :: string
  call_action :: action_request
  call_decision :: "json decision"
  call_reviewer :: string
  call_thread_id :: string
  call_context :: json

definition entry_of :: "review_call \<Rightarrow> json" where
  "entry_of c =
     log_entry (call_now c) (call_action c) (call_decision c) (call_reviewer c)
       (call_thread_id c) (call_context c)"

definition log_reviews :: "(json \<Rightarrow> string) \<Rightarrow> review_call list \<Rightarrow> string option \<Rightarrow> string option" where
  "log_reviews dumps calls log_file =
     foldl (\<lambda>f c. log_review dumps (call_now c) (call_action c) (call_decision c)
                     (call_reviewer c) (call_thread_id c) (call_context c) f)
           log_file calls"

definition counted :: "counter \<Rightarrow> int" where
  "counted m = sum_list (map snd m)"

section \<open>The control loop (run_agent_with_hitl)\<close>

text \<open>
  The loop works with collaborators it receives in \<open>agent_config\<close>: the agent, the review
  interface and the optional audit logger. They are functions on a state \<open>'w\<close> of their
  own and may raise. Action requests have any representation \<open>'a\<close>; \<open>tool_name\<close> reads
  \<open>action["name"]\<close>. The agent's result carries the list under \<open>"__interrupt__"\<close> (empty
  when the key is absent, which \<open>result.get\<close> treats alike).

  The loop's own effects are recorded in \<open>run_state\<close>: every call of \<open>agent.invoke\<close> with
  its input and the thread identifier of its \<open>config\<close>, and the notices it prints.
\<close>

datatype 'd agent_input = UserMessage string | Resume "'d list"

record 'a interrupt_value =
  action_requests :: "'a list"
  review_configs :: "review_config list"

record 'a agent_result =
  interrupt :: "'a interrupt_value list"
  messages :: "(string \<times> string) list"

datatype notice = InterruptBanner int int | MaxIterationsWarning int

type_synonym review_context = "(string \<times> pyval) list"

record ('w, 'a, 'd) agent_config =
  agent :: "'d agent_input \<Rightarrow> string \<Rightarrow> 'w \<Rightarrow> (error + 'a agent_result) \<times> 'w"
  tool_name :: "'a \<Rightarrow> 'w \<Rightarrow> error + string"
  review_interface :: "'a \<Rightarrow> review_config \<Rightarrow> review_context \<Rightarrow> 'w \<Rightarrow> (error + 'd) \<times> 'w"
  reviewer_name :: string
  audit_logger ::
    "('a \<Rightarrow> 'd \<Rightarrow> string \<Rightarrow> string \<Rightarrow> review_context \<Rightarrow> 'w \<Rightarrow> (error + unit) \<times> 'w) option"

record ('w, 'd) run_state =
  outside :: 'w
  agent_calls :: "('d agent_input \<times> string) list"
  printed :: "notice list"

definition invoke ::
  "('w, 'a, 'd) agent_config \<Rightarrow> 'd agent_input \<Rightarrow> string \<Rightarrow> ('w, 'd) run_state
     \<Rightarrow> (error + 'a agent_result) \<times> ('w, 'd) run_state"
where
  "invoke cfg inp thread_id s =
     (case agent cfg inp thread_id (outside s) of
        (r, w1) \<Rightarrow> (r, s\<lparr>outside := w1, agent_calls := agent_calls s @ [(inp, thread_id)]\<rparr>))"

text \<open>
  \<open>config_map\<close> is the dict comprehension over \<open>review_configs\<close> (a later entry replaces an
  earlier one of the same name). \<open>review_one\<close> is the body of the loop over the pending
  actions and \<open>collect_decisions\<close> that loop, appending to \<open>decisions\<close>;
  \<open>handle_interrupt\<close> is the body of the \<open>while\<close> loop and \<open>hitl_loop\<close> the \<open>while\<close> loop,
  which returns the last result and the iteration counter.
\<close>

definition config_map :: "review_config list \<Rightarrow> (string \<rightharpoonup> review_config)" where
  "config_map cfgs = foldl (\<lambda>m c. m(action_name c \<mapsto> c)) Map.empty cfgs"

definition review_one ::
  "('w, 'a, 'd) agent_config \<Rightarrow> (string \<rightharpoonup> review_config) \<Rightarrow> string \<Rightarrow> review_context \<Rightarrow> 'a \<Rightarrow> 'w
     \<Rightarrow> (error + 'd) \<times> 'w"
where
  "review_one cfg cmap thread_id context action w =
     (case tool_name cfg action w of
        Inl e \<Rightarrow> (Inl e, w)
      | Inr nm \<Rightarrow>
     (case cmap nm of
        None \<Rightarrow> (Inl (KeyError nm), w)
      | Some review_config \<Rightarrow>
     (case review_interface cfg action review_config context w of
        (Inl e, w1) \<Rightarrow> (Inl e, w1)
      | (Inr decision, w1) \<Rightarrow>
     (case audit_logger cfg of
        None \<Rightarrow> (Inr decision, w1)
      | Some log \<Rightarrow>
          (case log action decision (reviewer_name cfg) thread_id context w1 of
             (Inl e, w2) \<Rightarrow> (Inl e, w2)
           | (Inr u, w2) \<Rightarrow> (Inr decision, w2))))))"

fun collect_decisions ::
  "('w, 'a, 'd) agent_config \<Rightarrow> (string \<rightharpoonup> review_config) \<Rightarrow> string \<Rightarrow> review_context
     \<Rightarrow> 'd list \<Rightarrow> 'a list \<Rightarrow> 'w \<Rightarrow> (error + 'd list) \<times> 'w"
where
  "collect_decisions cfg cmap thread_id context decisions [] w = (Inr decisions, w)"
| "collect_decisions cfg cmap thread_id context decisions (action # rest) w =
     (case review_one cfg cmap thread_id context action w of
        (Inl e, w1) \<Rightarrow> (Inl e, w1)
      | (Inr decision, w1) \<Rightarrow>
          collect_decisions cfg cmap thread_id context (decisions @ [decision]) rest w1)"

definition review_context :: "int \<Rightarrow> string \<Rightarrow> review_context" where
  "review_context iteration thread_id =
     [(''stage'', VStr (''iteration '' @ str_int iteration)), (''thread_id'', VStr thread_id)]"

definition handle_interrupt ::
  "('w, 'a, 'd) agent_config \<Rightarrow> string \<Rightarrow> int \<Rightarrow> int \<Rightarrow> 'a agent_result \<Rightarrow> ('w, 'd) run_state
     \<Rightarrow> (error + 'a agent_result) \<times> ('w, 'd) run_state"
where
  "handle_interrupt cfg thread_id max_iterations iteration result s =
     (case interrupt result of
        [] \<Rightarrow> (Inl IndexError, s)
      | interrupts # others \<Rightarrow>
          (let s1 = s\<lparr>printed := printed s @ [InterruptBanner iteration max_iterations]\<rparr>
           in case collect_decisions cfg (config_map (review_configs interrupts)) thread_id
                     (review_context iteration thread_id) [] (action_requests interrupts)
                     (outside s1) of
                (Inl e, w1) \<Rightarrow> (Inl e, s1\<lparr>outside := w1\<rparr>)
              | (Inr decisions, w1) \<Rightarrow>
                  invoke cfg (Resume decisions) thread_id (s1\<lparr>outside := w1\<rparr>)))"

function hitl_loop ::
  "('w, 'a, 'd) agent_config \<Rightarrow> string \<Rightarrow> int \<Rightarrow> int \<Rightarrow> 'a agent_result \<Rightarrow> ('w, 'd) run_state
     \<Rightarrow> (error + 'a agent_result \<times> int) \<times> ('w, 'd) run_state"
where
  "hitl_loop cfg thread_id max_iterations iteration result s =
     (if interrupt result \<noteq> [] \<and> iteration < max_iterations then
        (case handle_interrupt cfg thread_id max_iterations (iteration + 1) result s of
           (Inl e, s1) \<Rightarrow> (Inl e, s1)
         | (Inr result1, s1) \<Rightarrow>
             hitl_loop cfg thread_id max_iterations (iteration + 1) result1 s1)
      else (Inr (result, iteration), s))"
  by pat_completeness auto
termination
  by (relation "measure (\<lambda>(cfg, thread_id, max_iterations, iteration, result, s).
                  nat (max_iterations - iteration))") auto

definition run_agent_with_hitl ::
  "('w, 'a, 'd) agent_config \<Rightarrow> string \<Rightarrow> string \<Rightarrow> int \<Rightarrow> 'w
     \<Rightarrow> (error + 'a agent_result) \<times> ('w, 'd) run_state"
where
  "run_agent_with_hitl cfg user_message thread_id max_iterations w =
     (case invoke cfg (UserMessage user_message) thread_id
             \<lparr>outside = w, agent_calls = [], printed = []\<rparr> of
        (Inl e, s1) \<Rightarrow> (Inl e, s1)
      | (Inr result, s1) \<Rightarrow>
          (case hitl_loop cfg thread_id max_iterations 0 result s1 of
             (Inl e, s2) \<Rightarrow> (Inl e, s2)
           | (Inr (final, iteration), s2) \<Rightarrow>
               (Inr final,
                if iteration \<ge> max_iterations
                then s2\<lparr>printed := printed s2 @ [MaxIterationsWarning max_iterations]\<rparr>
                else s2)))"

declare hitl_loop.simps [simp del]

text \<open>\<open>AutoApproveInterface.review_action\<close>; its state is the text printed so far.\<close>

definition auto_review_action ::
  "bool \<Rightarrow> action_request \<Rightarrow> review_config \<Rightarrow> review_context \<Rightarrow> string list
     \<Rightarrow> (error + json decision) \<times> string list"
where
  "auto_review_action log_actions action_request review_config context out =
     (Inr Approve,
      if log_actions then out @ [''[AUTO-APPROVED] '' @ req_name action_request] else out)"


text \<open>
  The command-line interface as the loop's review interface: action requests are references
  into the store, the name of an action is read from its dict, and the loop always passes a
  context. A name that is not a string is never a key of the config lookup (\<open>KeyError\<close>);
  a list or dict as name is unhashable (\<open>TypeError\<close>).
\<close>

definition heap_tool_name :: "lib \<Rightarrow> pyval \<Rightarrow> world \<Rightarrow> error + string" where
  "heap_tool_name lb action w =
     (case getitem (heap w) action ''name'' of
        Inl e \<Rightarrow> Inl e
      | Inr (VStr s) \<Rightarrow> Inr s
      | Inr (VRef a) \<Rightarrow> Inl TypeError
      | Inr v \<Rightarrow> Inl (KeyError (py_str lb (heap w) v)))"

definition cli_config ::
  "lib \<Rightarrow> (pyval decision agent_input \<Rightarrow> string \<Rightarrow> world \<Rightarrow> (error + pyval agent_result) \<times> world)
     \<Rightarrow> (world, pyval, pyval decision) agent_config"
where
  "cli_config lb ag =
     \<lparr>agent = ag,
      tool_name = heap_tool_name lb,
      review_interface = (\<lambda>action rc context w. cli_review_action lb action rc (Some context) w),
      reviewer_name = ''legal_team_member'',
      audit_logger = None\<rparr>"

section \<open>Conditions and sample data for the properties\<close>

text \<open>
  A result is reviewable when it carries a pause batch in which every pending action has a
  name with a matching entry in \<open>review_configs\<close>. An agent always pauses when every call
  returns such a result. The review never raises when the review interface, and the audit
  logger if there is one, return normally on every input.
\<close>

definition reviewable :: "('w, 'a, 'd) agent_config \<Rightarrow> 'a agent_result \<Rightarrow> bool" where
  "reviewable cfg r \<longleftrightarrow>
     (\<exists>batch others. interrupt r = batch # others
        \<and> (\<forall>a \<in> set (action_requests batch). \<forall>w'. \<exists>kind.
              tool_name cfg a w' = Inr kind \<and> kind \<in> action_name ` set (review_configs batch)))"

definition always_pauses :: "('w, 'a, 'd) agent_config \<Rightarrow> bool" where
  "always_pauses cfg \<longleftrightarrow>
     (\<forall>inp t w. \<exists>r w1. agent cfg inp t w = (Inr r, w1) \<and> reviewable cfg r)"

definition review_never_raises :: "('w, 'a, 'd) agent_config \<Rightarrow> bool" where
  "review_never_raises cfg \<longleftrightarrow>
     (\<forall>a rc ctx w. \<exists>d w1. review_interface cfg a rc ctx w = (Inr d, w1))
     \<and> (\<forall>log. audit_logger cfg = Some log \<longrightarrow>
            (\<forall>a d r t ctx w. \<exists>w1. log a d r t ctx w = (Inr (), w1)))"

text \<open>
  The pause and resume cycles of a run, written from the agent and the review of a batch
  alone, without the loop. \<open>resume_cycles cfg thread_id max_iterations n result w dss final u\<close>
  holds when, starting with the iteration counter at \<open>n\<close>, the agent's result \<open>result\<close> and
  the state \<open>w\<close>, the decision lists \<open>dss\<close> are in turn what the review of the first pause
  batch of the current result gives (all its pending actions, in order, under the context
  of the next iteration, the counter being below \<open>max_iterations\<close>), the agent resumed with
  that list under \<open>thread_id\<close> returns the next result, and \<open>final\<close> and \<open>u\<close> are the result
  and the state after the last of these calls. \<open>banners n max_iterations k\<close> are the banners
  of the \<open>k\<close> iterations after the \<open>n\<close>-th.
\<close>

fun resume_cycles ::
  "('w, 'a, 'd) agent_config \<Rightarrow> string \<Rightarrow> int \<Rightarrow> int \<Rightarrow> 'a agent_result \<Rightarrow> 'w
     \<Rightarrow> 'd list list \<Rightarrow> 'a agent_result \<Rightarrow> 'w \<Rightarrow> bool"
where
  "resume_cycles cfg thread_id max_iterations n result w [] final u \<longleftrightarrow>
     final = result \<and> u = w"
| "resume_cycles cfg thread_id max_iterations n result w (ds # later) final u \<longleftrightarrow>
     (case interrupt result of
        [] \<Rightarrow> False
      | batch # others \<Rightarrow>
          n < max_iterations
          \<and> (case collect_decisions cfg (config_map (review_configs batch)) thread_id
                    (review_context (n + 1) thread_id) [] (action_requests batch) w of
               (Inl e, w1) \<Rightarrow> False
             | (Inr decisions, w1) \<Rightarrow>
                 decisions = ds
                 \<and> (case agent cfg (Resume ds) thread_id w1 of
                      (Inl e, w2) \<Rightarrow> False
                    | (Inr result1, w2) \<Rightarrow>
                        resume_cycles cfg thread_id max_iterations (n + 1) result1 w2 later final u)))"

definition banners :: "int \<Rightarrow> int \<Rightarrow> nat \<Rightarrow> notice list" where
  "banners n max_iterations k =
     map (\<lambda>j. InterruptBanner (n + 1 + int j) max_iterations) [0..<k]"

text \<open>
  The agent of \<open>test_respects_max_iterations\<close>: every call returns a pause with one
  pending \<open>task\<close> action; the review interface is \<open>AutoApproveInterface(log_actions=False)\<close>
  and there is no audit logger. So that the results of different calls can be told apart,
  the agent here prints a line at each call and reports the lines printed before it in the
  messages of its result.
\<close>

definition task_batch :: "action_request agent_result" where
  "task_batch =
     \<lparr>interrupt =
        [\<lparr>action_requests =
            [\<lparr>req_name = ''task'',
              req_args = JObj [(''name'', JStr ''test''), (''task'', JStr ''test'')]\<rparr>],
          review_configs = [\<lparr>action_name = ''task'', allowed_decisions = Some [''approve'']\<rparr>]\<rparr>],
      messages = []\<rparr>"

definition pausing_config :: "(string list, action_request, json decision) agent_config" where
  "pausing_config =
     \<lparr>agent = (\<lambda>inp thread_id w.
                 (Inr (task_batch\<lparr>messages := map (Pair ''tool'') w\<rparr>), w @ [''paused''])),
      tool_name = (\<lambda>a w. Inr (req_name a)),
      review_interface = auto_review_action False,
      reviewer_name = ''test'',
      audit_logger = None\<rparr>"


text \<open>
  A run with the command-line interface: the agent pauses once with three pending actions
  (\<open>write_todos\<close>, \<open>task\<close>, \<open>write_file\<close>) and finishes when resumed. The human chooses
  to edit each action: an unlisted choice in the todo menu, a new subagent for the task, a
  new path for the file. \<open>three_decisions\<close> and \<open>three_reviewed\<close> are the decisions and the
  state after the three reviews.
\<close>

definition plain_lib :: lib where
  "plain_lib =
     \<lparr>json_loads = (\<lambda>s. None),
      run_editor = (\<lambda>s. s),
      py_str = (\<lambda>h v. case v of VStr s \<Rightarrow> s | _ \<Rightarrow> [])\<rparr>"

definition three_actions :: heap where
  "three_actions =
     [ODict [(''name'', VStr ''write_todos''), (''args'', VRef 1)],
      ODict [(''todos'', VRef 2)],
      OList [VRef 3],
      ODict [(''task'', VStr ''Review contracts''), (''status'', VStr ''pending'')],
      ODict [(''name'', VStr ''task''), (''args'', VRef 5)],
      ODict [(''name'', VStr ''general-purpose''), (''task'', VStr ''Analyze doc_001'')],
      ODict [(''name'', VStr ''write_file''), (''args'', VRef 7)],
      ODict [(''file_path'', VStr ''/report.md''), (''content'', VStr ''Report content'')]]"

definition three_batch :: "pyval agent_result" where
  "three_batch =
     \<lparr>interrupt =
        [\<lparr>action_requests = [VRef 0, VRef 4, VRef 6],
          review_configs =
            [\<lparr>action_name = ''write_todos'', allowed_decisions = None\<rparr>,
             \<lparr>action_name = ''task'', allowed_decisions = None\<rparr>,
             \<lparr>action_name = ''write_file'', allowed_decisions = None\<rparr>]\<rparr>],
      messages = []\<rparr>"

definition done_result :: "pyval agent_result" where
  "done_result = \<lparr>interrupt = [], messages = [(''assistant'', ''Done'')]\<rparr>"

definition one_pause_agent ::
  "pyval decision agent_input \<Rightarrow> string \<Rightarrow> world \<Rightarrow> (error + pyval agent_result) \<times> world"
where
  "one_pause_agent inp thread_id w =
     (case inp of
        UserMessage m \<Rightarrow> (Inr three_batch, w)
      | Resume ds \<Rightarrow> (Inr done_result, w))"

definition three_answers :: "inp list" where
  "three_answers =
     [Line ''2'', Line ''9'',
      Line ''2'', Line ''2'', Line ''legal-analyzer'',
      Line ''2'', Line ''1'', Line ''/final/report.md'']"


definition three_decisions :: "pyval decision list" where
  "three_decisions =
     [Edit (VStr ''write_todos'') (VRef 8),
      Edit (VStr ''task'') (VRef 9),
      Edit (VStr ''write_file'') (VRef 10)]"

definition three_reviewed :: world where
  "three_reviewed =
     \<lparr>heap = three_actions @
        [ODict [(''todos'', VRef 2)],
         ODict [(''name'', VStr ''legal-analyzer''), (''task'', VStr ''Analyze doc_001'')],
         ODict [(''file_path'', VStr ''/final/report.md''), (''content'', VStr ''Report content'')]],
      stdin = []\<rparr>"

text \<open>
  The value of an object as the caller sees it, read through the references down to a given
  depth (what \<open>json.dumps\<close> would print), and a review config that allows all three
  decisions.
\<close>

fun deep_value :: "nat \<Rightarrow> heap \<Rightarrow> pyval \<Rightarrow> json" where
  "deep_value depth h VNone = JNull"
| "deep_value depth h (VBool b) = JBool b"
| "deep_value depth h (VInt n) = JNum n"
| "deep_value depth h (VStr s) = JStr s"
| "deep_value 0 h (VRef a) = JNull"
| "deep_value (Suc depth) h (VRef a) =
     (if a < length h then
        (case h ! a of
           OList xs \<Rightarrow> JArr (map (deep_value depth h) xs)
         | ODict kvs \<Rightarrow> JObj (map (\<lambda>kv. (fst kv, deep_value depth h (snd kv))) kvs))
      else JNull)"

definition full_review :: review_config where
  "full_review = \<lparr>action_name = ''write_todos'', allowed_decisions = None\<rparr>"


text \<open>
  A pause batch whose second action, \<open>write_file\<close>, has no entry in \<open>review_configs\<close>,
  and an agent that pauses with a well-formed batch first and with this one when it is
  resumed; the review interface is \<open>AutoApproveInterface(log_actions=True)\<close>.
\<close>

definition drift_batch :: "action_request agent_result" where
  "drift_batch =
     \<lparr>interrupt =
        [\<lparr>action_requests =
            [\<lparr>req_name = ''task'', req_args = JObj [(''name'', JStr ''test''), (''task'', JStr ''test'')]\<rparr>,
             \<lparr>req_name = ''write_file'', req_args = JObj [(''file_path'', JStr ''/a''), (''content'', JStr ''b'')]\<rparr>],
          review_configs = [\<lparr>action_name = ''task'', allowed_decisions = Some [''approve'']\<rparr>]\<rparr>],
      messages = []\<rparr>"

definition late_drift_config :: "(string list, action_request, json decision) agent_config" where
  "late_drift_config =
     \<lparr>agent = (\<lambda>inp thread_id w.
                 case inp of
                   UserMessage m \<Rightarrow> (Inr task_batch, w)
                 | Resume ds \<Rightarrow> (Inr drift_batch, w)),
      tool_name = (\<lambda>a w. Inr (req_name a)),
      review_interface = auto_review_action True,
      reviewer_name = ''test'',
      audit_logger = None\<rparr>"

text \<open>
  Two logged reviews and the lines \<open>json.dumps\<close> writes for them. \<open>sample_dumps\<close> and
  \<open>sample_loads\<close> are \<open>json.dumps\<close> and \<open>json.loads\<close> restricted to these records and
  lines: every other text, the empty line among them, is not decoded by \<open>sample_loads\<close>
  (\<open>json.loads\<close> raises \<open>JSONDecodeError\<close> on a line that holds only a newline).
\<close>

definition approve_call :: review_call where
  "approve_call =
     \<lparr>call_now = ''2024-01-15T10:30:00'',
      call_action = \<lparr>req_name = ''task'',
                     req_args = JObj [(''name'', JStr ''test''), (''task'', JStr ''test'')]\<rparr>,
      call_decision = Approve,
      call_reviewer = ''alice'',
      call_thread_id = ''thread_1'',
      call_context = JNull\<rparr>"

definition reject_call :: review_call where
  "reject_call =
     \<lparr>call_now = ''2024-01-15T10:31:00'',
      call_action = \<lparr>req_name = ''write_file'',
                     req_args = JObj [(''file_path'', JStr ''/a''), (''content'', JStr ''b'')]\<rparr>,
      call_decision = Reject,
      call_reviewer = ''bob'',
      call_thread_id = ''thread_1'',
      call_context = JNull\<rparr>"

definition approve_line :: string where
  \<open>approve_line = ''{"timestamp": "2024-01-15T10:30:00", "thread_id": "thread_1", "reviewer": "alice", "action_tool": "task", "action_args": {"name": "test", "task": "test"}, "decision_type": "approve", "edited_args": null, "context": null}''\<close>

definition reject_line :: string where
  \<open>reject_line = ''{"timestamp": "2024-01-15T10:31:00", "thread_id": "thread_1", "reviewer": "bob", "action_tool": "write_file", "action_args": {"file_path": "/a", "content": "b"}, "decision_type": "reject", "edited_args": null, "context": null}''\<close>

definition sample_dumps :: "json \<Rightarrow> string" where
  "sample_dumps j =
     (if j = entry_of approve_call then approve_line
      else if j = entry_of reject_call then reject_line
      else [])"

definition sample_loads :: "string \<Rightarrow> json option" where
  "sample_loads s =
     (if s = approve_line @ [LF] then Some (entry_of approve_call)
      else if s = reject_line @ [LF] then Some (entry_of reject_call)
      else None)"

section \<open>Properties of the approval configurations\<close>

text \<open>
  Claim C8. The three canned policies and \<open>custom\<close>, for every choice of its four
  booleans, return a mapping whose key set is exactly the six action kinds write_todos,
  task, get_document, get_document_pages, write_file and edit_file; no key occurs twice.
\<close>

theorem policies_cover_six_action_kinds:
  "fst ` set high_oversight = action_kinds
   \<and> fst ` set moderate_oversight = action_kinds
   \<and> fst ` set minimal_oversight = action_kinds
   \<and> fst ` set (custom p d da fo) = action_kinds
   \<and> distinct (map fst high_oversight)
   \<and> distinct (map fst moderate_oversight)
   \<and> distinct (map fst minimal_oversight)
   \<and> distinct (map fst (custom p d da fo))"
  unfolding high_oversight_def moderate_oversight_def minimal_oversight_def custom_def
    action_kinds_def
  by simp

text \<open>
  Claim C9. \<open>moderate_oversight\<close> maps edit_file to the restricted decision set
  approve/reject (a dict with allowed_decisions), while \<open>high_oversight\<close>,
  \<open>minimal_oversight\<close> and \<open>custom\<close> map edit_file to a plain boolean (for \<open>custom\<close>,
  the file_operations argument).
\<close>

theorem edit_file_asymmetry:
  "map_of moderate_oversight ''edit_file'' = Some (AllowedDecisions [''approve'', ''reject''])
   \<and> map_of high_oversight ''edit_file'' = Some (Flag True)
   \<and> map_of minimal_oversight ''edit_file'' = Some (Flag True)
   \<and> map_of (custom p d da fo) ''edit_file'' = Some (Flag fo)"
  unfolding high_oversight_def moderate_oversight_def minimal_oversight_def custom_def
  by simp

section \<open>Properties of the control loop\<close>

subsection \<open>Auxiliary facts\<close>

lemma foldl_config_none:
  "foldl (\<lambda>m c. m(action_name c \<mapsto> c)) m0 cfgs k = None
     \<longleftrightarrow> m0 k = None \<and> k \<notin> action_name ` set cfgs"
  by (induction cfgs arbitrary: m0) auto

lemma config_map_none: "config_map cfgs k = None \<longleftrightarrow> k \<notin> action_name ` set cfgs"
  by (simp add: config_map_def foldl_config_none)

lemma collect_decisions_append:
  "collect_decisions cfg cmap t ctx acc (xs @ ys) w =
     (case collect_decisions cfg cmap t ctx acc xs w of
        (Inl e, w1) \<Rightarrow> (Inl e, w1)
      | (Inr ds, w1) \<Rightarrow> collect_decisions cfg cmap t ctx ds ys w1)"
  by (induction xs arbitrary: acc w) (auto split: prod.splits sum.splits)

lemma collect_decisions_trace:
  "collect_decisions cfg cmap t ctx acc as w = (Inr out, w') \<Longrightarrow>
     \<exists>ds ws. out = acc @ ds \<and> length ds = length as \<and> length ws = length as + 1
       \<and> ws ! 0 = w \<and> ws ! length as = w'
       \<and> (\<forall>i < length as. review_one cfg cmap t ctx (as ! i) (ws ! i) = (Inr (ds ! i), ws ! Suc i))"
proof (induction as arbitrary: acc w)
  case Nil
  then show ?case by (auto intro: exI [of _ "[w]"])
next
  case (Cons a as)
  from Cons.prems obtain d w1 where
    step: "review_one cfg cmap t ctx a w = (Inr d, w1)" and
    rest: "collect_decisions cfg cmap t ctx (acc @ [d]) as w1 = (Inr out, w')"
    by (auto split: prod.splits sum.splits)
  from Cons.IH [OF rest] obtain ds ws where
    IH: "out = (acc @ [d]) @ ds" "length ds = length as" "length ws = length as + 1"
        "ws ! 0 = w1" "ws ! length as = w'"
        "\<forall>i < length as. review_one cfg cmap t ctx (as ! i) (ws ! i) = (Inr (ds ! i), ws ! Suc i)"
    by blast
  have "\<forall>i < length (a # as).
          review_one cfg cmap t ctx ((a # as) ! i) ((w # ws) ! i) = (Inr ((d # ds) ! i), (w # ws) ! Suc i)"
  proof (intro allI impI)
    fix i assume "i < length (a # as)"
    then show "review_one cfg cmap t ctx ((a # as) ! i) ((w # ws) ! i) = (Inr ((d # ds) ! i), (w # ws) ! Suc i)"
      using step IH(4,6) by (cases i) auto
  qed
  with IH show ?case
    by (intro exI [of _ "d # ds"] exI [of _ "w # ws"]) auto
qed

lemma invoke_calls:
  "invoke cfg inp t s = (r, s1) \<Longrightarrow> agent_calls s1 = agent_calls s @ [(inp, t)]"
  by (auto simp: invoke_def split: prod.splits)

lemma handle_interrupt_calls:
  assumes "handle_interrupt cfg t m it result s = (r, s1)"
  shows "agent_calls s1 = agent_calls s \<or> (\<exists>ds. agent_calls s1 = agent_calls s @ [(Resume ds, t)])"
  using assms
  by (auto simp: handle_interrupt_def Let_def split: list.splits prod.splits sum.splits dest!: invoke_calls)

lemma hitl_loop_calls:
  "hitl_loop cfg t m it result s = (r, s1) \<Longrightarrow>
     \<exists>resumes. agent_calls s1 = agent_calls s @ resumes
        \<and> (\<forall>c \<in> set resumes. \<exists>ds. c = (Resume ds, t))
        \<and> int (length resumes) \<le> max 0 (m - it)"
proof (induction cfg t m it result s arbitrary: r s1 rule: hitl_loop.induct)
  case (1 cfg t m it result s)
  show ?case
  proof (cases "interrupt result \<noteq> [] \<and> it < m")
    case False
    with "1.prems" show ?thesis by (auto simp: hitl_loop.simps)
  next
    case True
    obtain o1 s2 where h: "handle_interrupt cfg t m (it + 1) result s = (o1, s2)"
      by (cases "handle_interrupt cfg t m (it + 1) result s")
    from handle_interrupt_calls [OF h] obtain one where
      one: "agent_calls s2 = agent_calls s @ one" "\<forall>c \<in> set one. \<exists>ds. c = (Resume ds, t)" "length one \<le> 1"
      by (auto intro: that [of "[]"] that [of "[(Resume ds, t)]" for ds])
    show ?thesis
    proof (cases o1)
      case (Inl e)
      with True h "1.prems" have "s1 = s2" by (simp add: hitl_loop.simps)
      with one True show ?thesis by (intro exI [of _ one]) auto
    next
      case (Inr result1)
      with True h "1.prems" have rec: "hitl_loop cfg t m (it + 1) result1 s2 = (r, s1)"
        by (simp add: hitl_loop.simps)
      from "1.IH" [OF True h [symmetric] _ rec] Inr obtain more where
        more: "agent_calls s1 = agent_calls s2 @ more" "\<forall>c \<in> set more. \<exists>ds. c = (Resume ds, t)"
          "int (length more) \<le> max 0 (m - (it + 1))"
        by auto
      with one True show ?thesis by (intro exI [of _ "one @ more"]) auto
    qed
  qed
qed

lemma collect_decisions_succeeds:
  assumes "review_never_raises cfg"
    and "\<forall>a \<in> set as. \<forall>w. \<exists>kind. tool_name cfg a w = Inr kind \<and> cmap kind \<noteq> None"
  shows "\<exists>ds w1. collect_decisions cfg cmap t ctx acc as w = (Inr ds, w1)"
  using assms(2)
proof (induction as arbitrary: acc w)
  case Nil
  then show ?case by simp
next
  case (Cons a as)
  from Cons.prems obtain kind rc where k: "tool_name cfg a w = Inr kind" "cmap kind = Some rc"
    by fastforce
  from assms(1) obtain d w1 where r: "review_interface cfg a rc ctx w = (Inr d, w1)"
    unfolding review_never_raises_def by blast
  have "\<exists>w2. review_one cfg cmap t ctx a w = (Inr d, w2)"
  proof (cases "audit_logger cfg")
    case None
    with k r show ?thesis by (simp add: review_one_def)
  next
    case (Some log)
    with assms(1) obtain w2 where "log a d (reviewer_name cfg) t ctx w1 = (Inr (), w2)"
      unfolding review_never_raises_def by blast
    with Some k r show ?thesis by (simp add: review_one_def)
  qed
  then obtain w2 where one: "review_one cfg cmap t ctx a w = (Inr d, w2)" ..
  from Cons.prems have "\<forall>a \<in> set as. \<forall>w. \<exists>kind. tool_name cfg a w = Inr kind \<and> cmap kind \<noteq> None"
    by simp
  from Cons.IH [OF this, of "acc @ [d]" w2] one show ?case by simp
qed


lemma always_pauses_agent:
  assumes "always_pauses cfg"
  shows "\<exists>r w1. agent cfg inp t w = (Inr r, w1) \<and> reviewable cfg r"
  using assms unfolding always_pauses_def by (elim allE)

lemma handle_interrupt_pausing:
  assumes "always_pauses cfg" and "review_never_raises cfg" and "reviewable cfg result"
  shows "\<exists>result1 s1. handle_interrupt cfg t m it result s = (Inr result1, s1)
           \<and> reviewable cfg result1
           \<and> length (agent_calls s1) = length (agent_calls s) + 1
           \<and> printed s1 = printed s @ [InterruptBanner it m]"
proof -
  from assms(3) obtain batch others where
    b: "interrupt result = batch # others"
       "\<forall>a \<in> set (action_requests batch). \<forall>w'. \<exists>kind.
              tool_name cfg a w' = Inr kind \<and> kind \<in> action_name ` set (review_configs batch)"
    unfolding reviewable_def by (elim exE conjE)
  have "\<forall>a \<in> set (action_requests batch). \<forall>w. \<exists>kind.
          tool_name cfg a w = Inr kind \<and> config_map (review_configs batch) kind \<noteq> None"
    using b(2) by (simp add: config_map_none)
  from collect_decisions_succeeds [OF assms(2) this,
      where t = t and ctx = "review_context it t" and acc = "[]" and w = "outside s"]
  obtain ds w1 where
    c: "collect_decisions cfg (config_map (review_configs batch)) t (review_context it t) []
          (action_requests batch) (outside s) = (Inr ds, w1)"
    by (elim exE)
  from always_pauses_agent [OF assms(1), of "Resume ds" t w1] obtain r w2 where
    a: "agent cfg (Resume ds) t w1 = (Inr r, w2)" "reviewable cfg r"
    by (elim exE conjE)
  have "handle_interrupt cfg t m it result s =
          (Inr r, s\<lparr>printed := printed s @ [InterruptBanner it m], outside := w2,
                     agent_calls := agent_calls s @ [(Resume ds, t)]\<rparr>)"
    unfolding handle_interrupt_def invoke_def using b(1) c a(1) by simp
  with a(2) show ?thesis by simp
qed

lemma hitl_loop_pausing:
  "always_pauses cfg \<Longrightarrow> review_never_raises cfg \<Longrightarrow> reviewable cfg result \<Longrightarrow>
         \<exists>final s1. hitl_loop cfg t m it result s = (Inr (final, max it m), s1)
           \<and> reviewable cfg final
           \<and> length (agent_calls s1) = length (agent_calls s) + nat (m - it)
           \<and> (it < m \<longrightarrow> printed s1 \<noteq> [] \<and> last (printed s1) = InterruptBanner m m)
           \<and> (\<not> it < m \<longrightarrow> printed s1 = printed s)"
proof (induction cfg t m it result s rule: hitl_loop.induct)
  case (1 cfg t m it result s)
  show ?case
  proof (cases "it < m")
    case False
    with "1.prems" show ?thesis by (simp add: hitl_loop.simps)
  next
    case True
    from "1.prems" have ne: "interrupt result \<noteq> []" by (auto simp: reviewable_def)
    from handle_interrupt_pausing [OF "1.prems", of t m "it + 1" s]
    obtain result1 s1 where
      h: "handle_interrupt cfg t m (it + 1) result s = (Inr result1, s1)"
         "reviewable cfg result1" "length (agent_calls s1) = length (agent_calls s) + 1"
         "printed s1 = printed s @ [InterruptBanner (it + 1) m]"
      by (elim exE conjE)
    have pr: "printed s1 \<noteq> [] \<and> last (printed s1) = InterruptBanner (it + 1) m"
      using h(4) by simp
    have "\<exists>final s2. hitl_loop cfg t m (it + 1) result1 s1 = (Inr (final, max (it + 1) m), s2)
         \<and> reviewable cfg final
         \<and> length (agent_calls s2) = length (agent_calls s1) + nat (m - (it + 1))
         \<and> (it + 1 < m \<longrightarrow> printed s2 \<noteq> [] \<and> last (printed s2) = InterruptBanner m m)
         \<and> (\<not> it + 1 < m \<longrightarrow> printed s2 = printed s1)"
      using "1.IH" [OF _ h(1) [symmetric] _ "1.prems"(1,2) h(2)] ne True by simp
    then obtain final s2 where
      r: "hitl_loop cfg t m (it + 1) result1 s1 = (Inr (final, max (it + 1) m), s2)"
         "reviewable cfg final"
         "length (agent_calls s2) = length (agent_calls s1) + nat (m - (it + 1))"
         "it + 1 < m \<longrightarrow> printed s2 \<noteq> [] \<and> last (printed s2) = InterruptBanner m m"
         "\<not> it + 1 < m \<longrightarrow> printed s2 = printed s1"
      by (elim exE conjE)
    have "hitl_loop cfg t m it result s = (Inr (final, max it m), s2)"
      using True ne h(1) r(1) by (simp add: hitl_loop.simps [of cfg t m it] max_def)
    moreover have "length (agent_calls s2) = length (agent_calls s) + nat (m - it)"
      using r(3) h(3) True by simp
    moreover have "printed s2 \<noteq> [] \<and> last (printed s2) = InterruptBanner m m"
    proof (cases "it + 1 < m")
      case True then show ?thesis using r(4) by simp
    next
      case False
      with True have "it + 1 = m" by simp
      with False r(5) pr show ?thesis by simp
    qed
    ultimately show ?thesis using r(2) True by simp
  qed
qed


lemma review_one_Inr:
  assumes "review_one cfg cmap t ctx a w = (Inr d, w')"
  shows "\<exists>kind rc wmid. tool_name cfg a w = Inr kind \<and> cmap kind = Some rc
           \<and> review_interface cfg a rc ctx w = (Inr d, wmid)
           \<and> (case audit_logger cfg of
                 None \<Rightarrow> w' = wmid
               | Some log \<Rightarrow> log a d (reviewer_name cfg) t ctx wmid = (Inr (), w'))"
  using assms
  by (auto simp: review_one_def split: sum.splits option.splits prod.splits)

lemma config_map_Some:
  "config_map cfgs k = Some rc \<Longrightarrow> rc \<in> set cfgs \<and> action_name rc = k"
  unfolding config_map_def
  by (induction cfgs rule: rev_induct) (auto split: if_splits)

lemma run_calls:
  "\<exists>resumes. agent_calls (snd (run_agent_with_hitl cfg user_message thread_id max_iterations w))
       = (UserMessage user_message, thread_id) # resumes
     \<and> (\<forall>c \<in> set resumes. \<exists>ds. c = (Resume ds, thread_id))"
proof -
  obtain r0 s1 where i: "invoke cfg (UserMessage user_message) thread_id
      \<lparr>outside = w, agent_calls = [], printed = []\<rparr> = (r0, s1)"
    by (cases "invoke cfg (UserMessage user_message) thread_id
      \<lparr>outside = w, agent_calls = [], printed = []\<rparr>")
  from invoke_calls [OF i] have c1: "agent_calls s1 = [(UserMessage user_message, thread_id)]" by simp
  show ?thesis
  proof (cases r0)
    case (Inl e)
    with i c1 show ?thesis by (simp add: run_agent_with_hitl_def)
  next
    case (Inr result)
    obtain o2 s2 where l: "hitl_loop cfg thread_id max_iterations 0 result s1 = (o2, s2)"
      by (cases "hitl_loop cfg thread_id max_iterations 0 result s1")
    from hitl_loop_calls [OF l] c1 obtain resumes where
      "agent_calls s2 = (UserMessage user_message, thread_id) # resumes"
      "\<forall>c \<in> set resumes. \<exists>ds. c = (Resume ds, thread_id)"
      by auto
    with i Inr l show ?thesis
      by (auto simp: run_agent_with_hitl_def split: sum.splits prod.splits)
  qed
qed

lemma collect_decisions_missing:
  assumes "collect_decisions cfg cmap t ctx acc before w = (Inr decisions, w1)"
    and "tool_name cfg action w1 = Inr kind"
    and "cmap kind = None"
  shows "collect_decisions cfg cmap t ctx acc (before @ action # after) w = (Inl (KeyError kind), w1)"
  using assms by (simp add: collect_decisions_append review_one_def)

lemma hitl_loop_missing:
  assumes "interrupt result = batch # others"
    and "action_requests batch = before @ action # after"
    and "collect_decisions cfg (config_map (review_configs batch)) t
           (review_context (n + 1) t) [] before w = (Inr decisions, w1)"
    and "tool_name cfg action w1 = Inr kind"
    and "kind \<notin> action_name ` set (review_configs batch)"
    and "n < m"
  shows "hitl_loop cfg t m n result \<lparr>outside = w, agent_calls = cs, printed = ps\<rparr>
           = (Inl (KeyError kind),
              \<lparr>outside = w1, agent_calls = cs, printed = ps @ [InterruptBanner (n + 1) m]\<rparr>)"
proof -
  from assms(5) have "config_map (review_configs batch) kind = None"
    by (simp add: config_map_none)
  from collect_decisions_missing [OF assms(3,4) this, of after] assms(2)
  have c: "collect_decisions cfg (config_map (review_configs batch)) t
           (review_context (n + 1) t) [] (action_requests batch) w = (Inl (KeyError kind), w1)"
    by simp
  have h: "handle_interrupt cfg t m (n + 1) result \<lparr>outside = w, agent_calls = cs, printed = ps\<rparr>
             = (Inl (KeyError kind),
                \<lparr>outside = w1, agent_calls = cs, printed = ps @ [InterruptBanner (n + 1) m]\<rparr>)"
    using assms(1) c by (simp add: handle_interrupt_def)
  show ?thesis
    using assms(1,6) h by (simp add: hitl_loop.simps [of cfg t m n])
qed

lemma banners_Suc:
  "banners n m (Suc k) = InterruptBanner (n + 1) m # banners (n + 1) m k"
  by (simp add: banners_def map_upt_Suc del: upt_Suc)

lemma banners_snoc:
  "banners n m (Suc k) = banners n m k @ [InterruptBanner (n + 1 + int k) m]"
  by (simp add: banners_def)

lemma resume_cycles_step:
  "interrupt result = batch # others \<Longrightarrow> n < m \<Longrightarrow>
   collect_decisions cfg (config_map (review_configs batch)) t (review_context (n + 1) t) []
       (action_requests batch) w = (Inr ds, w1) \<Longrightarrow>
   agent cfg (Resume ds) t w1 = (Inr result1, w2) \<Longrightarrow>
   resume_cycles cfg t m (n + 1) result1 w2 later final u \<Longrightarrow>
   resume_cycles cfg t m n result w (ds # later) final u"
  by simp

lemma resume_cycles_Cons:
  "resume_cycles cfg t m n result w (ds # later) final u \<Longrightarrow>
     \<exists>batch others w1 result1 w2.
       interrupt result = batch # others \<and> n < m
       \<and> collect_decisions cfg (config_map (review_configs batch)) t (review_context (n + 1) t) []
             (action_requests batch) w = (Inr ds, w1)
       \<and> agent cfg (Resume ds) t w1 = (Inr result1, w2)
       \<and> resume_cycles cfg t m (n + 1) result1 w2 later final u"
  by (auto split: list.splits prod.splits sum.splits)

lemma handle_interrupt_Inr:
  assumes "handle_interrupt cfg t m n1 result \<lparr>outside = w, agent_calls = cs, printed = ps\<rparr>
             = (Inr result1, s1)"
  shows "\<exists>batch others decisions w1 w2.
           interrupt result = batch # others
           \<and> collect_decisions cfg (config_map (review_configs batch)) t (review_context n1 t) []
                 (action_requests batch) w = (Inr decisions, w1)
           \<and> agent cfg (Resume decisions) t w1 = (Inr result1, w2)
           \<and> s1 = \<lparr>outside = w2, agent_calls = cs @ [(Resume decisions, t)],
                     printed = ps @ [InterruptBanner n1 m]\<rparr>"
  using assms
  by (auto simp: handle_interrupt_def invoke_def Let_def split: list.splits prod.splits sum.splits)

lemma hitl_loop_cycles:
  "hitl_loop cfg t m n result s = (Inr (final, nf), sf) \<Longrightarrow>
     \<exists>dss. resume_cycles cfg t m n result (outside s) dss final (outside sf)
        \<and> agent_calls sf = agent_calls s @ map (\<lambda>ds. (Resume ds, t)) dss
        \<and> printed sf = printed s @ banners n m (length dss)
        \<and> nf = n + int (length dss)
        \<and> (interrupt final = [] \<or> m \<le> nf)"
proof (induction cfg t m n result s rule: hitl_loop.induct)
  case (1 cfg t m n result s)
  show ?case
  proof (cases "interrupt result \<noteq> [] \<and> n < m")
    case False
    with "1.prems" have "final = result" "nf = n" "sf = s"
      by (auto simp: hitl_loop.simps [of cfg t m n])
    with False show ?thesis
      by (intro exI [of _ "[]"]) (auto simp: banners_def)
  next
    case True
    obtain o1 s1 where h: "handle_interrupt cfg t m (n + 1) result s = (o1, s1)"
      by (cases "handle_interrupt cfg t m (n + 1) result s")
    with True "1.prems" obtain result1 where o1: "o1 = Inr result1"
      by (cases o1) (auto simp: hitl_loop.simps [of cfg t m n])
    with True h "1.prems" have rec: "hitl_loop cfg t m (n + 1) result1 s1 = (Inr (final, nf), sf)"
      by (simp add: hitl_loop.simps [of cfg t m n])
    have s_eq: "\<lparr>outside = outside s, agent_calls = agent_calls s, printed = printed s\<rparr> = s"
      by (cases s) simp
    have "handle_interrupt cfg t m (n + 1) result
        \<lparr>outside = outside s, agent_calls = agent_calls s, printed = printed s\<rparr> = (Inr result1, s1)"
      unfolding s_eq using h o1 by simp
    from handle_interrupt_Inr [OF this] obtain batch others decisions w1 w2 where
      b: "interrupt result = batch # others"
         "collect_decisions cfg (config_map (review_configs batch)) t (review_context (n + 1) t) []
                 (action_requests batch) (outside s) = (Inr decisions, w1)"
         "agent cfg (Resume decisions) t w1 = (Inr result1, w2)"
         "s1 = \<lparr>outside = w2, agent_calls = agent_calls s @ [(Resume decisions, t)],
                     printed = printed s @ [InterruptBanner (n + 1) m]\<rparr>"
      by (elim exE conjE)
    from "1.IH" [OF True h [symmetric] o1 rec] obtain dss where
      d: "resume_cycles cfg t m (n + 1) result1 (outside s1) dss final (outside sf)"
         "agent_calls sf = agent_calls s1 @ map (\<lambda>ds. (Resume ds, t)) dss"
         "printed sf = printed s1 @ banners (n + 1) m (length dss)"
         "nf = n + 1 + int (length dss)"
         "interrupt final = [] \<or> m \<le> nf"
      by (elim exE conjE)
    from b(4) d(1) have "resume_cycles cfg t m (n + 1) result1 w2 dss final (outside sf)"
      by simp
    with True b(1,2,3)
    have "resume_cycles cfg t m n result (outside s) (decisions # dss) final (outside sf)"
      by (intro resume_cycles_step [of result batch others n m cfg t _ decisions w1 result1 w2])
         simp_all
    with b(4) d(2-5) show ?thesis
      by (intro exI [of _ "decisions # dss"]) (simp add: banners_Suc del: resume_cycles.simps)
  qed
qed

lemma hitl_loop_cycles_from:
  assumes "hitl_loop cfg t m n result \<lparr>outside = w, agent_calls = cs, printed = ps\<rparr>
             = (Inr (final, nf), sf)"
  shows "\<exists>dss. resume_cycles cfg t m n result w dss final (outside sf)
        \<and> agent_calls sf = cs @ map (\<lambda>ds. (Resume ds, t)) dss
        \<and> printed sf = ps @ banners n m (length dss)
        \<and> nf = n + int (length dss)
        \<and> (interrupt final = [] \<or> m \<le> nf)"
  using hitl_loop_cycles [OF assms] by simp

lemma cycles_hitl_loop:
  "resume_cycles cfg t m n result w dss final u \<Longrightarrow>
     hitl_loop cfg t m n result \<lparr>outside = w, agent_calls = cs, printed = ps\<rparr>
       = hitl_loop cfg t m (n + int (length dss)) final
           \<lparr>outside = u, agent_calls = cs @ map (\<lambda>ds. (Resume ds, t)) dss,
            printed = ps @ banners n m (length dss)\<rparr>"
proof (induction dss arbitrary: n result w cs ps)
  case Nil
  then show ?case by (simp add: banners_def)
next
  case (Cons ds later)
  from resume_cycles_Cons [OF Cons.prems] obtain batch others w1 result1 w2 where
    c: "interrupt result = batch # others" "n < m"
       "collect_decisions cfg (config_map (review_configs batch)) t (review_context (n + 1) t) []
             (action_requests batch) w = (Inr ds, w1)"
       "agent cfg (Resume ds) t w1 = (Inr result1, w2)"
       "resume_cycles cfg t m (n + 1) result1 w2 later final u"
    by (elim exE conjE)
  have "handle_interrupt cfg t m (n + 1) result \<lparr>outside = w, agent_calls = cs, printed = ps\<rparr>
          = (Inr result1, \<lparr>outside = w2, agent_calls = cs @ [(Resume ds, t)],
                            printed = ps @ [InterruptBanner (n + 1) m]\<rparr>)"
    using c(1,3,4) by (simp add: handle_interrupt_def invoke_def)
  with c(1,2) have
    "hitl_loop cfg t m n result \<lparr>outside = w, agent_calls = cs, printed = ps\<rparr>
       = hitl_loop cfg t m (n + 1) result1
           \<lparr>outside = w2, agent_calls = cs @ [(Resume ds, t)],
            printed = ps @ [InterruptBanner (n + 1) m]\<rparr>"
    by (simp add: hitl_loop.simps [of cfg t m n])
  also have "\<dots> = hitl_loop cfg t m (n + 1 + int (length later)) final
           \<lparr>outside = u, agent_calls = (cs @ [(Resume ds, t)]) @ map (\<lambda>ds. (Resume ds, t)) later,
            printed = (ps @ [InterruptBanner (n + 1) m]) @ banners (n + 1) m (length later)\<rparr>"
    by (rule Cons.IH [OF c(5)])
  finally show ?case by (simp add: banners_Suc add.assoc)
qed

lemma cycles_last_call:
  "resume_cycles cfg t m n result w dss final u \<Longrightarrow> dss \<noteq> [] \<Longrightarrow>
     \<exists>before. agent cfg (Resume (last dss)) t before = (Inr final, u)"
proof (induction dss arbitrary: n result w)
  case Nil
  then show ?case by simp
next
  case (Cons ds later)
  note IH = Cons.IH
  from resume_cycles_Cons [OF Cons.prems(1)] obtain batch others w1 result1 w2 where
    c: "agent cfg (Resume ds) t w1 = (Inr result1, w2)"
       "resume_cycles cfg t m (n + 1) result1 w2 later final u"
    by (elim exE conjE)
  show ?case
  proof (cases "later = []")
    case True
    with c(2) have "final = result1" "u = w2" by simp_all
    with True c(1) show ?thesis by auto
  next
    case False
    from IH [OF c(2) False] False show ?thesis by simp
  qed
qed

lemma run_cycles:
  assumes "run_agent_with_hitl cfg msg t m w = (Inr final, sf)"
  shows "\<exists>result0 w0 dss.
           agent cfg (UserMessage msg) t w = (Inr result0, w0)
           \<and> resume_cycles cfg t m 0 result0 w0 dss final (outside sf)
           \<and> agent_calls sf = (UserMessage msg, t) # map (\<lambda>ds. (Resume ds, t)) dss
           \<and> printed sf = banners 0 m (length dss)
                @ (if m \<le> int (length dss) then [MaxIterationsWarning m] else [])
           \<and> (interrupt final = [] \<or> m \<le> int (length dss))"
proof -
  obtain r0 w0 where a: "agent cfg (UserMessage msg) t w = (r0, w0)"
    by (cases "agent cfg (UserMessage msg) t w")
  have i: "invoke cfg (UserMessage msg) t \<lparr>outside = w, agent_calls = [], printed = []\<rparr>
             = (r0, \<lparr>outside = w0, agent_calls = [(UserMessage msg, t)], printed = []\<rparr>)"
    using a by (simp add: invoke_def)
  from assms i obtain result0 where r0: "r0 = Inr result0"
    by (cases r0) (auto simp: run_agent_with_hitl_def)
  obtain o2 s2 where
    l: "hitl_loop cfg t m 0 result0 \<lparr>outside = w0, agent_calls = [(UserMessage msg, t)], printed = []\<rparr>
          = (o2, s2)"
    by (cases "hitl_loop cfg t m 0 result0
                 \<lparr>outside = w0, agent_calls = [(UserMessage msg, t)], printed = []\<rparr>")
  from assms i r0 l obtain nf where o2: "o2 = Inr (final, nf)"
    and sf: "sf = (if nf \<ge> m then s2\<lparr>printed := printed s2 @ [MaxIterationsWarning m]\<rparr> else s2)"
    by (cases o2) (auto simp: run_agent_with_hitl_def split: prod.splits)
  from l o2 have "hitl_loop cfg t m 0 result0
       \<lparr>outside = w0, agent_calls = [(UserMessage msg, t)], printed = []\<rparr> = (Inr (final, nf), s2)"
    by simp
  from hitl_loop_cycles_from [OF this] obtain dss where
    d: "resume_cycles cfg t m 0 result0 w0 dss final (outside s2)"
       "agent_calls s2 = [(UserMessage msg, t)] @ map (\<lambda>ds. (Resume ds, t)) dss"
       "printed s2 = [] @ banners 0 m (length dss)"
       "nf = 0 + int (length dss)"
       "interrupt final = [] \<or> m \<le> nf"
    by (elim exE conjE)
  from a r0 d sf show ?thesis
    by (intro exI [of _ result0] exI [of _ w0] exI [of _ dss]) auto
qed

lemma cycles_run:
  assumes "agent cfg (UserMessage msg) t w = (Inr result0, w0)"
    and "resume_cycles cfg t m 0 result0 w0 dss final u"
    and "interrupt final = [] \<or> m \<le> int (length dss)"
  shows "run_agent_with_hitl cfg msg t m w
           = (Inr final,
              \<lparr>outside = u,
               agent_calls = (UserMessage msg, t) # map (\<lambda>ds. (Resume ds, t)) dss,
               printed = banners 0 m (length dss)
                  @ (if m \<le> int (length dss) then [MaxIterationsWarning m] else [])\<rparr>)"
proof -
  have i: "invoke cfg (UserMessage msg) t \<lparr>outside = w, agent_calls = [], printed = []\<rparr>
             = (Inr result0, \<lparr>outside = w0, agent_calls = [(UserMessage msg, t)], printed = []\<rparr>)"
    using assms(1) by (simp add: invoke_def)
  have "hitl_loop cfg t m 0 result0
            \<lparr>outside = w0, agent_calls = [(UserMessage msg, t)], printed = []\<rparr>
          = hitl_loop cfg t m (0 + int (length dss)) final
              \<lparr>outside = u, agent_calls = [(UserMessage msg, t)] @ map (\<lambda>ds. (Resume ds, t)) dss,
               printed = [] @ banners 0 m (length dss)\<rparr>"
    by (rule cycles_hitl_loop [OF assms(2)])
  also have "\<dots> = (Inr (final, 0 + int (length dss)),
              \<lparr>outside = u, agent_calls = [(UserMessage msg, t)] @ map (\<lambda>ds. (Resume ds, t)) dss,
               printed = [] @ banners 0 m (length dss)\<rparr>)"
    using assms(3) by (subst hitl_loop.simps) auto
  finally show ?thesis
    using i by (simp add: run_agent_with_hitl_def)
qed

lemmas cli_eval =
  cli_config_def heap_tool_name_def plain_lib_def three_actions_def three_batch_def
  three_answers_def three_decisions_def three_reviewed_def one_pause_agent_def done_result_def
  review_one_def config_map_def review_context_def str_int_def
  cli_review_action_def show_context_def handle_edit_def edit_todos_def edit_task_def
  edit_file_def todos_result_def alloc_def strip_def is_space_def
  handle_interrupt_def invoke_def Let_def

subsection \<open>The iteration bound\<close>

text \<open>
  Claim C2. The loop always terminates, and it calls the agent at most once for the initial
  request plus \<open>max_iterations\<close> times to resume. For an agent whose every call returns a
  paused result (and a review that does not raise), the run makes exactly
  \<open>1 + max_iterations\<close> agent calls (4 for \<open>max_iterations = 3\<close>): the initial call and one
  resume for each of \<open>max_iterations\<close> pause and resume cycles. It prints the banner of each
  cycle and the warning last, and it returns the last result: the one the agent returned to
  the last of these calls, which still carries the pause signal.
\<close>

theorem max_iterations_bounds_the_loop:
  "length (agent_calls (snd (run_agent_with_hitl cfg user_message thread_id max_iterations w)))
     \<le> 1 + nat max_iterations
   \<and> (always_pauses cfg \<and> review_never_raises cfg \<longrightarrow>
        (\<exists>final s result0 w0 dss.
           run_agent_with_hitl cfg user_message thread_id max_iterations w = (Inr final, s)
           \<and> interrupt final \<noteq> []
           \<and> length (agent_calls s) = 1 + nat max_iterations
           \<and> printed s \<noteq> []
           \<and> last (printed s) = MaxIterationsWarning max_iterations
           \<and> agent cfg (UserMessage user_message) thread_id w = (Inr result0, w0)
           \<and> resume_cycles cfg thread_id max_iterations 0 result0 w0 dss final (outside s)
           \<and> length dss = nat max_iterations
           \<and> agent_calls s
               = (UserMessage user_message, thread_id) # map (\<lambda>ds. (Resume ds, thread_id)) dss
           \<and> (\<exists>before. agent cfg (fst (last (agent_calls s))) thread_id before
                          = (Inr final, outside s))
           \<and> printed s = banners 0 max_iterations (nat max_iterations)
                            @ [MaxIterationsWarning max_iterations]))"
proof (intro conjI impI)
  obtain r0 s1 where i: "invoke cfg (UserMessage user_message) thread_id
      \<lparr>outside = w, agent_calls = [], printed = []\<rparr> = (r0, s1)"
    by (cases "invoke cfg (UserMessage user_message) thread_id
      \<lparr>outside = w, agent_calls = [], printed = []\<rparr>")
  from invoke_calls [OF i] have c1: "length (agent_calls s1) = 1" by simp
  show "length (agent_calls (snd (run_agent_with_hitl cfg user_message thread_id max_iterations w)))
          \<le> 1 + nat max_iterations"
  proof (cases r0)
    case (Inl e)
    with i c1 show ?thesis by (simp add: run_agent_with_hitl_def)
  next
    case (Inr result)
    obtain o2 s2 where l: "hitl_loop cfg thread_id max_iterations 0 result s1 = (o2, s2)"
      by (cases "hitl_loop cfg thread_id max_iterations 0 result s1")
    from hitl_loop_calls [OF l] c1 have "length (agent_calls s2) \<le> 1 + nat max_iterations"
      by auto
    with i Inr l show ?thesis
      by (auto simp: run_agent_with_hitl_def split: sum.splits prod.splits)
  qed
next
  assume a: "always_pauses cfg \<and> review_never_raises cfg"
  from a have ap: "always_pauses cfg" and rn: "review_never_raises cfg" by simp_all
  from always_pauses_agent [OF ap, of "UserMessage user_message" thread_id w]
  obtain result0 w0 where
    ag: "agent cfg (UserMessage user_message) thread_id w = (Inr result0, w0)"
        "reviewable cfg result0"
    by (elim exE conjE)
  have i: "invoke cfg (UserMessage user_message) thread_id
             \<lparr>outside = w, agent_calls = [], printed = []\<rparr>
           = (Inr result0,
              \<lparr>outside = w0, agent_calls = [(UserMessage user_message, thread_id)], printed = []\<rparr>)"
    using ag(1) by (simp add: invoke_def)
  from hitl_loop_pausing [OF ap rn ag(2), of thread_id max_iterations 0
         "\<lparr>outside = w0, agent_calls = [(UserMessage user_message, thread_id)], printed = []\<rparr>"]
  obtain final s2 where
    l: "hitl_loop cfg thread_id max_iterations 0 result0
          \<lparr>outside = w0, agent_calls = [(UserMessage user_message, thread_id)], printed = []\<rparr>
        = (Inr (final, max 0 max_iterations), s2)"
       "reviewable cfg final"
    by (elim exE conjE)
  from hitl_loop_cycles_from [OF l(1)] obtain dss where
    d: "resume_cycles cfg thread_id max_iterations 0 result0 w0 dss final (outside s2)"
       "agent_calls s2
          = [(UserMessage user_message, thread_id)] @ map (\<lambda>ds. (Resume ds, thread_id)) dss"
       "printed s2 = [] @ banners 0 max_iterations (length dss)"
       "max 0 max_iterations = 0 + int (length dss)"
    by (elim exE conjE)
  from d(4) have len: "length dss = nat max_iterations" by simp
  have run: "run_agent_with_hitl cfg user_message thread_id max_iterations w =
          (Inr final, s2\<lparr>printed := printed s2 @ [MaxIterationsWarning max_iterations]\<rparr>)"
    using i l(1) by (simp add: run_agent_with_hitl_def)
  have paused: "interrupt final \<noteq> []" using l(2) by (auto simp: reviewable_def)
  have last_call: "\<exists>before. agent cfg (fst (last (agent_calls s2))) thread_id before
                     = (Inr final, outside s2)"
  proof (cases "dss = []")
    case True
    with d(1) have "final = result0" "outside s2 = w0" by simp_all
    with True d(2) ag(1) show ?thesis by auto
  next
    case False
    from cycles_last_call [OF d(1) False] obtain before where
      "agent cfg (Resume (last dss)) thread_id before = (Inr final, outside s2)" ..
    moreover from False d(2) have "fst (last (agent_calls s2)) = Resume (last dss)"
      by (simp add: last_map)
    ultimately show ?thesis by auto
  qed
  show "\<exists>final s result0 w0 dss.
           run_agent_with_hitl cfg user_message thread_id max_iterations w = (Inr final, s)
           \<and> interrupt final \<noteq> []
           \<and> length (agent_calls s) = 1 + nat max_iterations
           \<and> printed s \<noteq> []
           \<and> last (printed s) = MaxIterationsWarning max_iterations
           \<and> agent cfg (UserMessage user_message) thread_id w = (Inr result0, w0)
           \<and> resume_cycles cfg thread_id max_iterations 0 result0 w0 dss final (outside s)
           \<and> length dss = nat max_iterations
           \<and> agent_calls s
               = (UserMessage user_message, thread_id) # map (\<lambda>ds. (Resume ds, thread_id)) dss
           \<and> (\<exists>before. agent cfg (fst (last (agent_calls s))) thread_id before
                          = (Inr final, outside s))
           \<and> printed s = banners 0 max_iterations (nat max_iterations)
                            @ [MaxIterationsWarning max_iterations]"
    using run paused ag(1) d(1,2,3) len last_call
    by (intro exI [of _ final]
          exI [of _ "s2\<lparr>printed := printed s2 @ [MaxIterationsWarning max_iterations]\<rparr>"]
          exI [of _ result0] exI [of _ w0] exI [of _ dss]) simp
qed

theorem max_iterations_bounds_the_loop_witness:
  "always_pauses pausing_config \<and> review_never_raises pausing_config
   \<and> run_agent_with_hitl pausing_config ''Test'' ''test_001'' 3 []
       = (Inr (task_batch\<lparr>messages :=
                 [(''tool'', ''paused''), (''tool'', ''paused''), (''tool'', ''paused'')]\<rparr>),
          \<lparr>outside = [''paused'', ''paused'', ''paused'', ''paused''],
           agent_calls = [(UserMessage ''Test'', ''test_001''), (Resume [Approve], ''test_001''),
                          (Resume [Approve], ''test_001''), (Resume [Approve], ''test_001'')],
           printed = [InterruptBanner 1 3, InterruptBanner 2 3, InterruptBanner 3 3,
                      MaxIterationsWarning 3]\<rparr>)
   \<and> (\<exists>final s. run_agent_with_hitl pausing_config ''Test'' ''test_001'' 3 [] = (Inr final, s)
           \<and> interrupt final \<noteq> []
           \<and> length (agent_calls s) = 4
           \<and> last (printed s) = MaxIterationsWarning 3
           \<and> (\<exists>before. agent pausing_config (fst (last (agent_calls s))) ''test_001'' before
                          = (Inr final, outside s)))"
proof -
  have p: "always_pauses pausing_config"
    by (simp add: always_pauses_def reviewable_def pausing_config_def task_batch_def)
  have r: "review_never_raises pausing_config"
    by (simp add: review_never_raises_def pausing_config_def auto_review_action_def)
  have e: "run_agent_with_hitl pausing_config ''Test'' ''test_001'' 3 []
       = (Inr (task_batch\<lparr>messages :=
                 [(''tool'', ''paused''), (''tool'', ''paused''), (''tool'', ''paused'')]\<rparr>),
          \<lparr>outside = [''paused'', ''paused'', ''paused'', ''paused''],
           agent_calls = [(UserMessage ''Test'', ''test_001''), (Resume [Approve], ''test_001''),
                          (Resume [Approve], ''test_001''), (Resume [Approve], ''test_001'')],
           printed = [InterruptBanner 1 3, InterruptBanner 2 3, InterruptBanner 3 3,
                      MaxIterationsWarning 3]\<rparr>)"
    by (simp add: run_agent_with_hitl_def hitl_loop.simps handle_interrupt_def invoke_def
          pausing_config_def task_batch_def config_map_def review_one_def auto_review_action_def)
  from max_iterations_bounds_the_loop
         [of pausing_config "''Test''" "''test_001''" 3 "[]", THEN conjunct2, THEN mp,
          OF conjI [OF p r]]
  obtain final s result0 w0 dss before where
    f: "run_agent_with_hitl pausing_config ''Test'' ''test_001'' 3 [] = (Inr final, s)"
       "interrupt final \<noteq> []" "length (agent_calls s) = 1 + nat 3"
       "last (printed s) = MaxIterationsWarning 3"
       "agent pausing_config (fst (last (agent_calls s))) ''test_001'' before
          = (Inr final, outside s)"
    by (elim exE conjE)
  from f(3) have n: "length (agent_calls s) = 4" by simp
  from f(5) have "\<exists>before. agent pausing_config (fst (last (agent_calls s))) ''test_001'' before
                   = (Inr final, outside s)" ..
  with f(1,2) n f(4)
  have "\<exists>final s. run_agent_with_hitl pausing_config ''Test'' ''test_001'' 3 [] = (Inr final, s)
           \<and> interrupt final \<noteq> []
           \<and> length (agent_calls s) = 4
           \<and> last (printed s) = MaxIterationsWarning 3
           \<and> (\<exists>before. agent pausing_config (fst (last (agent_calls s))) ''test_001'' before
                          = (Inr final, outside s))"
    by (intro exI [of _ final] exI [of _ s] conjI)
  with p r e show ?thesis by (intro conjI)
qed

subsection \<open>Order of the decisions and the thread identifier\<close>

text \<open>
  Claim C1. For a pause batch, when the decisions for all pending actions have been
  collected, the loop resumes the agent with exactly that list under the thread identifier of
  the run; the list has one decision per pending action, and decision \<open>i\<close> is the one the
  review interface returned for the \<open>i\<close>-th action request (with the review config of that
  action's kind and the context of this iteration), asked in the order of the batch: the
  state \<open>ws ! i\<close> in which action \<open>i\<close> is reviewed is the one left by reviewing and logging the
  actions before it.

  The loop does this for every paused result of a run. A run that returns has called the
  agent with the user's message and then, for each pause in turn, with the decision list
  collected for that pause's batch, and with nothing else; it stops at a result that is not
  paused or when \<open>max_iterations\<close> is reached. Conversely, whenever the agent and the reviews
  give such a sequence of cycles, this is what the run does and returns. Every agent call
  of a run, the initial one and every resume, carries the same thread identifier.
\<close>

theorem decisions_follow_action_order:
  "(interrupt result = batch # others
      \<and> collect_decisions cfg (config_map (review_configs batch)) thread_id
            (review_context iteration thread_id) [] (action_requests batch) (outside s)
          = (Inr decisions, w1)
    \<longrightarrow>
      agent_calls (snd (handle_interrupt cfg thread_id max_iterations iteration result s))
        = agent_calls s @ [(Resume decisions, thread_id)]
      \<and> length decisions = length (action_requests batch)
      \<and> (\<exists>ws. length ws = length (action_requests batch) + 1
            \<and> ws ! 0 = outside s \<and> ws ! length (action_requests batch) = w1
            \<and> (\<forall>i < length (action_requests batch).
                  \<exists>kind rc wmid.
                    tool_name cfg (action_requests batch ! i) (ws ! i) = Inr kind
                    \<and> rc \<in> set (review_configs batch) \<and> action_name rc = kind
                    \<and> review_interface cfg (action_requests batch ! i) rc
                          (review_context iteration thread_id) (ws ! i)
                        = (Inr (decisions ! i), wmid)
                    \<and> (case audit_logger cfg of
                          None \<Rightarrow> ws ! Suc i = wmid
                        | Some log \<Rightarrow>
                            log (action_requests batch ! i) (decisions ! i) (reviewer_name cfg)
                                thread_id (review_context iteration thread_id) wmid
                              = (Inr (), ws ! Suc i)))))
   \<and> (run_agent_with_hitl cfg user_message thread_id max_iterations w = (Inr final, sf)
    \<longrightarrow>
      (\<exists>result0 w0 dss.
           agent cfg (UserMessage user_message) thread_id w = (Inr result0, w0)
           \<and> resume_cycles cfg thread_id max_iterations 0 result0 w0 dss final (outside sf)
           \<and> agent_calls sf
               = (UserMessage user_message, thread_id) # map (\<lambda>ds. (Resume ds, thread_id)) dss
           \<and> printed sf = banners 0 max_iterations (length dss)
                @ (if max_iterations \<le> int (length dss)
                   then [MaxIterationsWarning max_iterations] else [])
           \<and> (interrupt final = [] \<or> max_iterations \<le> int (length dss))))
   \<and> (agent cfg (UserMessage user_message) thread_id w = (Inr first_result, w0)
      \<and> resume_cycles cfg thread_id max_iterations 0 first_result w0 dss last_result u
      \<and> (interrupt last_result = [] \<or> max_iterations \<le> int (length dss))
    \<longrightarrow>
      run_agent_with_hitl cfg user_message thread_id max_iterations w
        = (Inr last_result,
           \<lparr>outside = u,
            agent_calls
              = (UserMessage user_message, thread_id) # map (\<lambda>ds. (Resume ds, thread_id)) dss,
            printed = banners 0 max_iterations (length dss)
                @ (if max_iterations \<le> int (length dss)
                   then [MaxIterationsWarning max_iterations] else [])\<rparr>))
   \<and> (\<exists>resumes.
          agent_calls (snd (run_agent_with_hitl cfg user_message thread_id max_iterations w))
            = (UserMessage user_message, thread_id) # resumes
          \<and> (\<forall>c \<in> set resumes. \<exists>ds. c = (Resume ds, thread_id)))"
proof (intro conjI impI)
  assume a: "interrupt result = batch # others
      \<and> collect_decisions cfg (config_map (review_configs batch)) thread_id
            (review_context iteration thread_id) [] (action_requests batch) (outside s)
          = (Inr decisions, w1)"
  then have b: "interrupt result = batch # others"
    and c: "collect_decisions cfg (config_map (review_configs batch)) thread_id
            (review_context iteration thread_id) [] (action_requests batch) (outside s)
          = (Inr decisions, w1)"
    by simp_all
  show "agent_calls (snd (handle_interrupt cfg thread_id max_iterations iteration result s))
        = agent_calls s @ [(Resume decisions, thread_id)]"
    using b c by (simp add: handle_interrupt_def invoke_def split: prod.splits)
  from collect_decisions_trace [OF c] obtain ds ws where
    t: "decisions = [] @ ds" "length ds = length (action_requests batch)"
       "length ws = length (action_requests batch) + 1"
       "ws ! 0 = outside s" "ws ! length (action_requests batch) = w1"
       "\<forall>i < length (action_requests batch).
          review_one cfg (config_map (review_configs batch)) thread_id
            (review_context iteration thread_id) (action_requests batch ! i) (ws ! i)
          = (Inr (ds ! i), ws ! Suc i)"
    by (elim exE conjE)
  from t(1,2) show "length decisions = length (action_requests batch)" by simp
  have "\<forall>i < length (action_requests batch).
                  \<exists>kind rc wmid.
                    tool_name cfg (action_requests batch ! i) (ws ! i) = Inr kind
                    \<and> rc \<in> set (review_configs batch) \<and> action_name rc = kind
                    \<and> review_interface cfg (action_requests batch ! i) rc
                          (review_context iteration thread_id) (ws ! i)
                        = (Inr (decisions ! i), wmid)
                    \<and> (case audit_logger cfg of
                          None \<Rightarrow> ws ! Suc i = wmid
                        | Some log \<Rightarrow>
                            log (action_requests batch ! i) (decisions ! i) (reviewer_name cfg)
                                thread_id (review_context iteration thread_id) wmid
                              = (Inr (), ws ! Suc i))"
  proof (intro allI impI)
    fix i assume "i < length (action_requests batch)"
    with t(6) have "review_one cfg (config_map (review_configs batch)) thread_id
            (review_context iteration thread_id) (action_requests batch ! i) (ws ! i)
          = (Inr (ds ! i), ws ! Suc i)" by simp
    from review_one_Inr [OF this] obtain kind rc wmid where
      r: "tool_name cfg (action_requests batch ! i) (ws ! i) = Inr kind"
         "config_map (review_configs batch) kind = Some rc"
         "review_interface cfg (action_requests batch ! i) rc
             (review_context iteration thread_id) (ws ! i) = (Inr (ds ! i), wmid)"
         "(case audit_logger cfg of
                 None \<Rightarrow> ws ! Suc i = wmid
               | Some log \<Rightarrow> log (action_requests batch ! i) (ds ! i) (reviewer_name cfg) thread_id
                     (review_context iteration thread_id) wmid = (Inr (), ws ! Suc i))"
      by (elim exE conjE)
    from t(1) have eq: "ds = decisions" by simp
    from config_map_Some [OF r(2)] r(1,3,4)
    show "\<exists>kind rc wmid.
                    tool_name cfg (action_requests batch ! i) (ws ! i) = Inr kind
                    \<and> rc \<in> set (review_configs batch) \<and> action_name rc = kind
                    \<and> review_interface cfg (action_requests batch ! i) rc
                          (review_context iteration thread_id) (ws ! i)
                        = (Inr (decisions ! i), wmid)
                    \<and> (case audit_logger cfg of
                          None \<Rightarrow> ws ! Suc i = wmid
                        | Some log \<Rightarrow>
                            log (action_requests batch ! i) (decisions ! i) (reviewer_name cfg)
                                thread_id (review_context iteration thread_id) wmid
                              = (Inr (), ws ! Suc i))"
      unfolding eq by (intro exI [of _ kind] exI [of _ rc] exI [of _ wmid]) simp
  qed
  with t(3,4,5)
  show "\<exists>ws. length ws = length (action_requests batch) + 1
            \<and> ws ! 0 = outside s \<and> ws ! length (action_requests batch) = w1
            \<and> (\<forall>i < length (action_requests batch).
                  \<exists>kind rc wmid.
                    tool_name cfg (action_requests batch ! i) (ws ! i) = Inr kind
                    \<and> rc \<in> set (review_configs batch) \<and> action_name rc = kind
                    \<and> review_interface cfg (action_requests batch ! i) rc
                          (review_context iteration thread_id) (ws ! i)
                        = (Inr (decisions ! i), wmid)
                    \<and> (case audit_logger cfg of
                          None \<Rightarrow> ws ! Suc i = wmid
                        | Some log \<Rightarrow>
                            log (action_requests batch ! i) (decisions ! i) (reviewer_name cfg)
                                thread_id (review_context iteration thread_id) wmid
                              = (Inr (), ws ! Suc i)))"
    by (intro exI [of _ ws] conjI)
next
  assume r: "run_agent_with_hitl cfg user_message thread_id max_iterations w = (Inr final, sf)"
  show "\<exists>result0 w0 dss.
           agent cfg (UserMessage user_message) thread_id w = (Inr result0, w0)
           \<and> resume_cycles cfg thread_id max_iterations 0 result0 w0 dss final (outside sf)
           \<and> agent_calls sf
               = (UserMessage user_message, thread_id) # map (\<lambda>ds. (Resume ds, thread_id)) dss
           \<and> printed sf = banners 0 max_iterations (length dss)
                @ (if max_iterations \<le> int (length dss)
                   then [MaxIterationsWarning max_iterations] else [])
           \<and> (interrupt final = [] \<or> max_iterations \<le> int (length dss))"
    by (rule run_cycles [OF r])
next
  assume c: "agent cfg (UserMessage user_message) thread_id w = (Inr first_result, w0)
      \<and> resume_cycles cfg thread_id max_iterations 0 first_result w0 dss last_result u
      \<and> (interrupt last_result = [] \<or> max_iterations \<le> int (length dss))"
  show "run_agent_with_hitl cfg user_message thread_id max_iterations w
        = (Inr last_result,
           \<lparr>outside = u,
            agent_calls
              = (UserMessage user_message, thread_id) # map (\<lambda>ds. (Resume ds, thread_id)) dss,
            printed = banners 0 max_iterations (length dss)
                @ (if max_iterations \<le> int (length dss)
                   then [MaxIterationsWarning max_iterations] else [])\<rparr>)"
    by (rule cycles_run [OF c [THEN conjunct1] c [THEN conjunct2, THEN conjunct1]
                            c [THEN conjunct2, THEN conjunct2]])
next
  show "\<exists>resumes.
          agent_calls (snd (run_agent_with_hitl cfg user_message thread_id max_iterations w))
            = (UserMessage user_message, thread_id) # resumes
          \<and> (\<forall>c \<in> set resumes. \<exists>ds. c = (Resume ds, thread_id))"
    by (rule run_calls)
qed

theorem decisions_follow_action_order_witness:
  "interrupt three_batch = hd (interrupt three_batch) # []
   \<and> collect_decisions (cli_config plain_lib one_pause_agent)
        (config_map (review_configs (hd (interrupt three_batch)))) ''thread_1''
        (review_context 1 ''thread_1'') [] (action_requests (hd (interrupt three_batch)))
        \<lparr>heap = three_actions, stdin = three_answers\<rparr>
      = (Inr three_decisions, three_reviewed)
   \<and> agent_calls (snd (handle_interrupt (cli_config plain_lib one_pause_agent) ''thread_1'' 50 1
         three_batch
         \<lparr>outside = \<lparr>heap = three_actions, stdin = three_answers\<rparr>,
          agent_calls = [(UserMessage ''Analyze'', ''thread_1'')], printed = []\<rparr>))
      = [(UserMessage ''Analyze'', ''thread_1''), (Resume three_decisions, ''thread_1'')]
   \<and> length three_decisions = length (action_requests (hd (interrupt three_batch)))
   \<and> agent (cli_config plain_lib one_pause_agent) (UserMessage ''Analyze'') ''thread_1''
        \<lparr>heap = three_actions, stdin = three_answers\<rparr>
      = (Inr three_batch, \<lparr>heap = three_actions, stdin = three_answers\<rparr>)
   \<and> resume_cycles (cli_config plain_lib one_pause_agent) ''thread_1'' 50 0 three_batch
        \<lparr>heap = three_actions, stdin = three_answers\<rparr> [three_decisions] done_result three_reviewed
   \<and> run_agent_with_hitl (cli_config plain_lib one_pause_agent) ''Analyze'' ''thread_1'' 50
        \<lparr>heap = three_actions, stdin = three_answers\<rparr>
      = (Inr done_result,
         \<lparr>outside = three_reviewed,
          agent_calls = [(UserMessage ''Analyze'', ''thread_1''),
                         (Resume three_decisions, ''thread_1'')],
          printed = [InterruptBanner 1 50]\<rparr>)
   \<and> (\<exists>result0 w0 dss.
         agent (cli_config plain_lib one_pause_agent) (UserMessage ''Analyze'') ''thread_1''
             \<lparr>heap = three_actions, stdin = three_answers\<rparr> = (Inr result0, w0)
         \<and> resume_cycles (cli_config plain_lib one_pause_agent) ''thread_1'' 50 0 result0 w0 dss
             done_result three_reviewed
         \<and> [(UserMessage ''Analyze'', ''thread_1''), (Resume three_decisions, ''thread_1'')]
             = (UserMessage ''Analyze'', ''thread_1'') # map (\<lambda>ds. (Resume ds, ''thread_1'')) dss)"
proof -
  note claim = decisions_follow_action_order
         [where result = three_batch and batch = "hd (interrupt three_batch)" and others = "[]"
            and cfg = "cli_config plain_lib one_pause_agent" and thread_id = "''thread_1''"
            and iteration = 1 and max_iterations = 50
            and s = "\<lparr>outside = \<lparr>heap = three_actions, stdin = three_answers\<rparr>,
                      agent_calls = [(UserMessage ''Analyze'', ''thread_1'')], printed = []\<rparr>"
            and decisions = three_decisions and ?w1.0 = three_reviewed
            and user_message = "''Analyze''"
            and w = "\<lparr>heap = three_actions, stdin = three_answers\<rparr>"
            and first_result = three_batch
            and ?w0.0 = "\<lparr>heap = three_actions, stdin = three_answers\<rparr>"
            and dss = "[three_decisions]" and last_result = done_result and u = three_reviewed
            and final = done_result
            and sf = "\<lparr>outside = three_reviewed,
                       agent_calls = [(UserMessage ''Analyze'', ''thread_1''),
                                      (Resume three_decisions, ''thread_1'')],
                       printed = [InterruptBanner 1 50]\<rparr>"]
  have h1: "interrupt three_batch = hd (interrupt three_batch) # []"
    by (simp add: three_batch_def)
  have h2: "collect_decisions (cli_config plain_lib one_pause_agent)
        (config_map (review_configs (hd (interrupt three_batch)))) ''thread_1''
        (review_context 1 ''thread_1'') [] (action_requests (hd (interrupt three_batch)))
        \<lparr>heap = three_actions, stdin = three_answers\<rparr>
      = (Inr three_decisions, three_reviewed)"
    by (simp add: cli_eval)
  from h1 h2 have h12: "interrupt three_batch = hd (interrupt three_batch) # []
      \<and> collect_decisions (cli_config plain_lib one_pause_agent)
            (config_map (review_configs (hd (interrupt three_batch)))) ''thread_1''
            (review_context 1 ''thread_1'') [] (action_requests (hd (interrupt three_batch)))
            (outside \<lparr>outside = \<lparr>heap = three_actions, stdin = three_answers\<rparr>,
                      agent_calls = [(UserMessage ''Analyze'', ''thread_1'')], printed = []\<rparr>)
          = (Inr three_decisions, three_reviewed)"
    by simp
  from claim [THEN conjunct1, THEN mp, OF h12]
  have h3: "agent_calls (snd (handle_interrupt (cli_config plain_lib one_pause_agent) ''thread_1'' 50 1
         three_batch
         \<lparr>outside = \<lparr>heap = three_actions, stdin = three_answers\<rparr>,
          agent_calls = [(UserMessage ''Analyze'', ''thread_1'')], printed = []\<rparr>))
      = [(UserMessage ''Analyze'', ''thread_1''), (Resume three_decisions, ''thread_1'')]"
    and h4: "length three_decisions = length (action_requests (hd (interrupt three_batch)))"
    by simp_all
  have a0: "agent (cli_config plain_lib one_pause_agent) (UserMessage ''Analyze'') ''thread_1''
        \<lparr>heap = three_actions, stdin = three_answers\<rparr>
      = (Inr three_batch, \<lparr>heap = three_actions, stdin = three_answers\<rparr>)"
    by (simp add: cli_config_def one_pause_agent_def)
  have a1: "agent (cli_config plain_lib one_pause_agent) (Resume three_decisions) ''thread_1''
        three_reviewed = (Inr done_result, three_reviewed)"
    by (simp add: cli_config_def one_pause_agent_def)
  have h2': "collect_decisions (cli_config plain_lib one_pause_agent)
        (config_map (review_configs (hd (interrupt three_batch)))) ''thread_1''
        (review_context (0 + 1) ''thread_1'') [] (action_requests (hd (interrupt three_batch)))
        \<lparr>heap = three_actions, stdin = three_answers\<rparr>
      = (Inr three_decisions, three_reviewed)"
    using h2 by simp
  have nil: "resume_cycles (cli_config plain_lib one_pause_agent) ''thread_1'' 50 (0 + 1)
        done_result three_reviewed [] done_result three_reviewed"
    by simp
  have c: "resume_cycles (cli_config plain_lib one_pause_agent) ''thread_1'' 50 0 three_batch
        \<lparr>heap = three_actions, stdin = three_answers\<rparr> [three_decisions] done_result three_reviewed"
    by (rule resume_cycles_step [OF h1 _ h2' a1 nil]) simp
  have d: "interrupt done_result = [] \<or> (50::int) \<le> int (length [three_decisions])"
    by (simp add: done_result_def)
  from claim [THEN conjunct2, THEN conjunct2, THEN conjunct1, THEN mp,
              OF conjI [OF a0 conjI [OF c d]]]
  have run: "run_agent_with_hitl (cli_config plain_lib one_pause_agent) ''Analyze'' ''thread_1'' 50
        \<lparr>heap = three_actions, stdin = three_answers\<rparr>
      = (Inr done_result,
         \<lparr>outside = three_reviewed,
          agent_calls = [(UserMessage ''Analyze'', ''thread_1''),
                         (Resume three_decisions, ''thread_1'')],
          printed = [InterruptBanner 1 50]\<rparr>)"
    by (simp add: banners_def)
  from claim [THEN conjunct2, THEN conjunct1, THEN mp, OF run]
  have conv: "\<exists>result0 w0 dss.
         agent (cli_config plain_lib one_pause_agent) (UserMessage ''Analyze'') ''thread_1''
             \<lparr>heap = three_actions, stdin = three_answers\<rparr> = (Inr result0, w0)
         \<and> resume_cycles (cli_config plain_lib one_pause_agent) ''thread_1'' 50 0 result0 w0 dss
             done_result three_reviewed
         \<and> [(UserMessage ''Analyze'', ''thread_1''), (Resume three_decisions, ''thread_1'')]
             = (UserMessage ''Analyze'', ''thread_1'') # map (\<lambda>ds. (Resume ds, ''thread_1'')) dss"
    by (elim exE conjE, intro exI conjI) simp_all
  from h1 h2 h3 h4 a0 c run conv show ?thesis by (intro conjI)
qed

subsection \<open>A pending action without a review config\<close>

text \<open>
  Claim C3. If a pause batch contains an action request whose kind has no entry in the
  batch's \<open>review_configs\<close> (and reviewing the actions before it raised nothing), the loop
  raises \<open>KeyError\<close> naming that kind. This holds for every pause batch of a run, the first
  as well as one reached after any number of pause and resume cycles: the error is the
  result of the loop entered before those cycles and of \<open>run_agent_with_hitl\<close>, the action
  is not skipped, and the agent is not resumed for the batch, so that the agent calls are
  the ones of the cycles before it.
\<close>

theorem missing_review_config_raises:
  assumes "resume_cycles cfg thread_id max_iterations n result0 w0 dss result u"
    and "interrupt result = batch # others"
    and "action_requests batch = before @ action # after"
    and "collect_decisions cfg (config_map (review_configs batch)) thread_id
           (review_context (n + int (length dss) + 1) thread_id) [] before u = (Inr decisions, w1)"
    and "tool_name cfg action w1 = Inr kind"
    and "kind \<notin> action_name ` set (review_configs batch)"
    and "n + int (length dss) < max_iterations"
  shows "hitl_loop cfg thread_id max_iterations n result0
             \<lparr>outside = w0, agent_calls = cs, printed = ps\<rparr>
           = (Inl (KeyError kind),
              \<lparr>outside = w1,
               agent_calls = cs @ map (\<lambda>ds. (Resume ds, thread_id)) dss,
               printed = ps @ banners n max_iterations (Suc (length dss))\<rparr>)
         \<and> (n = 0 \<and> agent cfg (UserMessage user_message) thread_id w = (Inr result0, w0)
            \<longrightarrow> run_agent_with_hitl cfg user_message thread_id max_iterations w
                  = (Inl (KeyError kind),
                     \<lparr>outside = w1,
                      agent_calls = (UserMessage user_message, thread_id)
                                      # map (\<lambda>ds. (Resume ds, thread_id)) dss,
                      printed = banners 0 max_iterations (Suc (length dss))\<rparr>))"
proof -
  have loop: "hitl_loop cfg thread_id max_iterations n result0
             \<lparr>outside = w0, agent_calls = cs, printed = ps\<rparr>
           = (Inl (KeyError kind),
              \<lparr>outside = w1,
               agent_calls = cs @ map (\<lambda>ds. (Resume ds, thread_id)) dss,
               printed = ps @ banners n max_iterations (Suc (length dss))\<rparr>)" for cs ps
  proof -
    have "hitl_loop cfg thread_id max_iterations n result0
             \<lparr>outside = w0, agent_calls = cs, printed = ps\<rparr>
           = hitl_loop cfg thread_id max_iterations (n + int (length dss)) result
               \<lparr>outside = u, agent_calls = cs @ map (\<lambda>ds. (Resume ds, thread_id)) dss,
                printed = ps @ banners n max_iterations (length dss)\<rparr>"
      by (rule cycles_hitl_loop [OF assms(1)])
    also have "\<dots> = (Inl (KeyError kind),
              \<lparr>outside = w1,
               agent_calls = cs @ map (\<lambda>ds. (Resume ds, thread_id)) dss,
               printed = (ps @ banners n max_iterations (length dss))
                  @ [InterruptBanner (n + int (length dss) + 1) max_iterations]\<rparr>)"
      by (rule hitl_loop_missing [OF assms(2,3,4,5,6,7)])
    finally show ?thesis by (simp add: banners_snoc add.commute add.left_commute)
  qed
  have "run_agent_with_hitl cfg user_message thread_id max_iterations w
                  = (Inl (KeyError kind),
                     \<lparr>outside = w1,
                      agent_calls = (UserMessage user_message, thread_id)
                                      # map (\<lambda>ds. (Resume ds, thread_id)) dss,
                      printed = banners 0 max_iterations (Suc (length dss))\<rparr>)"
    if z: "n = 0" and a: "agent cfg (UserMessage user_message) thread_id w = (Inr result0, w0)"
  proof -
    have i: "invoke cfg (UserMessage user_message) thread_id
               \<lparr>outside = w, agent_calls = [], printed = []\<rparr>
             = (Inr result0,
                \<lparr>outside = w0, agent_calls = [(UserMessage user_message, thread_id)],
                 printed = []\<rparr>)"
      using a by (simp add: invoke_def)
    from loop [of "[(UserMessage user_message, thread_id)]" "[]"] z i show ?thesis
      by (simp add: run_agent_with_hitl_def)
  qed
  with loop show ?thesis by blast
qed

theorem missing_review_config_raises_witness:
  "resume_cycles late_drift_config ''test_001'' 3 0 task_batch [] [[Approve]] drift_batch
       [''[AUTO-APPROVED] task'']
   \<and> interrupt drift_batch = hd (interrupt drift_batch) # []
   \<and> action_requests (hd (interrupt drift_batch))
       = [hd (action_requests (hd (interrupt drift_batch)))]
         @ \<lparr>req_name = ''write_file'',
             req_args = JObj [(''file_path'', JStr ''/a''), (''content'', JStr ''b'')]\<rparr> # []
   \<and> ''write_file'' \<notin> action_name ` set (review_configs (hd (interrupt drift_batch)))
   \<and> (0::int) + int (length [[Approve :: json decision]]) < 3
   \<and> agent late_drift_config (UserMessage ''Test'') ''test_001'' [] = (Inr task_batch, [])
   \<and> run_agent_with_hitl late_drift_config ''Test'' ''test_001'' 3 []
       = (Inl (KeyError ''write_file''),
          \<lparr>outside = [''[AUTO-APPROVED] task'', ''[AUTO-APPROVED] task''],
           agent_calls = [(UserMessage ''Test'', ''test_001''), (Resume [Approve], ''test_001'')],
           printed = [InterruptBanner 1 3, InterruptBanner 2 3]\<rparr>)"
proof -
  have h0: "resume_cycles late_drift_config ''test_001'' 3 0 task_batch [] [[Approve]] drift_batch
       [''[AUTO-APPROVED] task'']"
    by (simp add: late_drift_config_def task_batch_def config_map_def review_one_def
          auto_review_action_def)
  have h1: "interrupt drift_batch = hd (interrupt drift_batch) # []"
    by (simp add: drift_batch_def)
  have h2: "action_requests (hd (interrupt drift_batch))
       = [hd (action_requests (hd (interrupt drift_batch)))]
         @ \<lparr>req_name = ''write_file'',
             req_args = JObj [(''file_path'', JStr ''/a''), (''content'', JStr ''b'')]\<rparr> # []"
    by (simp add: drift_batch_def)
  have h3: "collect_decisions late_drift_config
           (config_map (review_configs (hd (interrupt drift_batch))))
           ''test_001'' (review_context (0 + int (length [[Approve :: json decision]]) + 1) ''test_001'') []
           [hd (action_requests (hd (interrupt drift_batch)))] [''[AUTO-APPROVED] task'']
         = (Inr [Approve], [''[AUTO-APPROVED] task'', ''[AUTO-APPROVED] task''])"
    by (simp add: drift_batch_def late_drift_config_def config_map_def review_one_def
          auto_review_action_def)
  have h4: "tool_name late_drift_config
              \<lparr>req_name = ''write_file'',
                req_args = JObj [(''file_path'', JStr ''/a''), (''content'', JStr ''b'')]\<rparr>
              [''[AUTO-APPROVED] task'', ''[AUTO-APPROVED] task''] = Inr ''write_file''"
    by (simp add: late_drift_config_def)
  have h5: "''write_file'' \<notin> action_name ` set (review_configs (hd (interrupt drift_batch)))"
    by (simp add: drift_batch_def)
  have h6: "(0::int) + int (length [[Approve :: json decision]]) < 3" by simp
  have a: "agent late_drift_config (UserMessage ''Test'') ''test_001'' [] = (Inr task_batch, [])"
    by (simp add: late_drift_config_def)
  from missing_review_config_raises [OF h0 h1 h2 h3 h4 h5 h6, of "[]" "[]" "''Test''" "[]"] a
  have "run_agent_with_hitl late_drift_config ''Test'' ''test_001'' 3 []
       = (Inl (KeyError ''write_file''),
          \<lparr>outside = [''[AUTO-APPROVED] task'', ''[AUTO-APPROVED] task''],
           agent_calls = [(UserMessage ''Test'', ''test_001''), (Resume [Approve], ''test_001'')],
           printed = [InterruptBanner 1 3, InterruptBanner 2 3]\<rparr>)"
    by (simp add: banners_def)
  with h0 h1 h2 h5 h6 a show ?thesis by (intro conjI)
qed

section \<open>Properties of the command-line review interface\<close>

lemmas review_eval =
  cli_review_action_def show_context_def handle_edit_def edit_todos_def edit_task_def
  edit_file_def todos_result_def alloc_def strip_def is_space_def Let_def
  plain_lib_def three_actions_def full_review_def


subsection \<open>Unlisted choices in the editing menus\<close>

text \<open>
  Claim C10. In the \<open>write_todos\<close> editing menu every choice other than "1" to "5" falls
  through to the final \<open>return\<close>: the result is an \<open>Edit\<close> of \<open>write_todos\<close> whose arguments
  are a new dict around the same, unchanged todo list, and nothing else in the store
  changes. In the \<open>task\<close> and \<open>write_file\<close> editing menus every choice other than "1", "2"
  and "3" gives \<open>Reject\<close>. (The choice is the answer with surrounding whitespace stripped; the
  action request is assumed to have the fields the menu displays.)
\<close>

theorem unlisted_choice_in_edit_menus:
  "(getitem (heap w) action_request ''args'' = Inr args
      \<and> getitem (heap w) args ''todos'' = Inr todos
      \<and> py_iter (heap w) todos = Inr items
      \<and> show_todos (heap w) items = Inr ()
      \<and> stdin w = Line answer # rest
      \<and> strip answer \<notin> {''1'', ''2'', ''3'', ''4'', ''5''}
    \<longrightarrow> edit_todos lb action_request w
          = (Inr (Edit (VStr ''write_todos'') (VRef (length (heap w)))),
             \<lparr>heap = heap w @ [ODict [(''todos'', todos)]], stdin = rest\<rparr>))
   \<and> (getitem (heap w) action_request ''args'' = Inr args
      \<and> getitem (heap w) args ''name'' = Inr subagent
      \<and> getitem (heap w) args ''task'' = Inr task
      \<and> stdin w = Line answer # rest
      \<and> strip answer \<notin> {''1'', ''2'', ''3''}
    \<longrightarrow> edit_task lb action_request w = (Inr Reject, \<lparr>heap = heap w, stdin = rest\<rparr>))
   \<and> (getitem (heap w) action_request ''args'' = Inr args
      \<and> getitem (heap w) args ''file_path'' = Inr file_path
      \<and> getitem (heap w) args ''content'' = Inr content
      \<and> show_content (heap w) content = Inr ()
      \<and> stdin w = Line answer # rest
      \<and> strip answer \<notin> {''1'', ''2'', ''3''}
    \<longrightarrow> edit_file lb action_request w = (Inr Reject, \<lparr>heap = heap w, stdin = rest\<rparr>))"
  by (cases w) (simp add: edit_todos_def edit_task_def edit_file_def todos_result_def alloc_def)

theorem unlisted_choice_in_edit_menus_witness:
  "edit_todos plain_lib (VRef 0) \<lparr>heap = three_actions, stdin = [Line ''9'']\<rparr>
     = (Inr (Edit (VStr ''write_todos'') (VRef 8)),
        \<lparr>heap = three_actions @ [ODict [(''todos'', VRef 2)]], stdin = []\<rparr>)
   \<and> edit_task plain_lib (VRef 4) \<lparr>heap = three_actions, stdin = [Line ''9'']\<rparr>
     = (Inr Reject, \<lparr>heap = three_actions, stdin = []\<rparr>)
   \<and> edit_file plain_lib (VRef 6) \<lparr>heap = three_actions, stdin = [Line ''9'']\<rparr>
     = (Inr Reject, \<lparr>heap = three_actions, stdin = []\<rparr>)"
proof -
  have a: "getitem three_actions (VRef 0) ''args'' = Inr (VRef 1)
      \<and> getitem three_actions (VRef 1) ''todos'' = Inr (VRef 2)
      \<and> py_iter three_actions (VRef 2) = Inr [VRef 3]
      \<and> show_todos three_actions [VRef 3] = Inr ()
      \<and> strip ''9'' \<notin> {''1'', ''2'', ''3'', ''4'', ''5''}"
    by (simp add: three_actions_def strip_def is_space_def)
  have b: "getitem three_actions (VRef 4) ''args'' = Inr (VRef 5)
      \<and> getitem three_actions (VRef 5) ''name'' = Inr (VStr ''general-purpose'')
      \<and> getitem three_actions (VRef 5) ''task'' = Inr (VStr ''Analyze doc_001'')
      \<and> strip ''9'' \<notin> {''1'', ''2'', ''3''}"
    by (simp add: three_actions_def strip_def is_space_def)
  have c: "getitem three_actions (VRef 6) ''args'' = Inr (VRef 7)
      \<and> getitem three_actions (VRef 7) ''file_path'' = Inr (VStr ''/report.md'')
      \<and> getitem three_actions (VRef 7) ''content'' = Inr (VStr ''Report content'')
      \<and> show_content three_actions (VStr ''Report content'') = Inr ()
      \<and> strip ''9'' \<notin> {''1'', ''2'', ''3''}"
    by (simp add: three_actions_def strip_def is_space_def)
  have len: "length three_actions = 8" by (simp add: three_actions_def)
  from a len
    unlisted_choice_in_edit_menus
      [where w = "\<lparr>heap = three_actions, stdin = [Line ''9'']\<rparr>" and action_request = "VRef 0"
         and args = "VRef 1" and todos = "VRef 2" and items = "[VRef 3]" and answer = "''9''"
         and rest = "[]" and lb = plain_lib]
  have 1: "edit_todos plain_lib (VRef 0) \<lparr>heap = three_actions, stdin = [Line ''9'']\<rparr>
     = (Inr (Edit (VStr ''write_todos'') (VRef 8)),
        \<lparr>heap = three_actions @ [ODict [(''todos'', VRef 2)]], stdin = []\<rparr>)"
    by simp
  from b
    unlisted_choice_in_edit_menus
      [where w = "\<lparr>heap = three_actions, stdin = [Line ''9'']\<rparr>" and action_request = "VRef 4"
         and args = "VRef 5" and subagent = "VStr ''general-purpose''"
         and task = "VStr ''Analyze doc_001''" and answer = "''9''" and rest = "[]"
         and lb = plain_lib]
  have 2: "edit_task plain_lib (VRef 4) \<lparr>heap = three_actions, stdin = [Line ''9'']\<rparr>
     = (Inr Reject, \<lparr>heap = three_actions, stdin = []\<rparr>)"
    by simp
  from c
    unlisted_choice_in_edit_menus
      [where w = "\<lparr>heap = three_actions, stdin = [Line ''9'']\<rparr>" and action_request = "VRef 6"
         and args = "VRef 7" and file_path = "VStr ''/report.md''"
         and content = "VStr ''Report content''" and answer = "''9''" and rest = "[]"
         and lb = plain_lib]
  have 3: "edit_file plain_lib (VRef 6) \<lparr>heap = three_actions, stdin = [Line ''9'']\<rparr>
     = (Inr Reject, \<lparr>heap = three_actions, stdin = []\<rparr>)"
    by simp
  from 1 2 3 show ?thesis by simp
qed


subsection \<open>Reviews of other tools leave the store alone\<close>

text \<open>
  The generic, \<open>task\<close> and \<open>write_file\<close> editing flows only create objects: whatever is
  typed, every object that existed before the call is unchanged after it. So a
  review of any tool other than \<open>write_todos\<close> never changes the request it was given.
\<close>

lemma alloc_json_extends:
  "alloc_json j h = (v, h') \<Longrightarrow> \<exists>new. h' = h @ new"
  "alloc_items js h = (vs, h') \<Longrightarrow> \<exists>new. h' = h @ new"
  "alloc_fields kvs h = (fs, h') \<Longrightarrow> \<exists>new. h' = h @ new"
proof (induction j h and js h and kvs h arbitrary: v h' and vs h' and fs h'
        rule: alloc_json_alloc_items_alloc_fields.induct)
  case (5 xs h)
  then show ?case by (fastforce split: prod.splits)
next
  case (6 kvs h)
  then show ?case by (fastforce split: prod.splits)
next
  case (8 x xs h)
  then show ?case by (fastforce split: prod.splits)
next
  case (10 k x kvs h)
  then show ?case by (fastforce split: prod.splits)
qed auto

lemma read_line_heap: "read_line w = (r, w') \<Longrightarrow> heap w' = heap w"
  by (auto split: list.splits inp.splits)

lemma edit_generic_extends:
  "edit_generic lb a w = (r, w') \<Longrightarrow> \<exists>new. heap w' = heap w @ new"
  by (auto simp: edit_generic_def split: sum.splits prod.splits option.splits
           dest: alloc_json_extends(1))

lemma edit_task_extends:
  "edit_task lb a w = (r, w') \<Longrightarrow> \<exists>new. heap w' = heap w @ new"
  by (auto simp: edit_task_def alloc_def Let_def simp del: read_line.simps
           split: sum.splits prod.splits if_splits
           dest!: read_line_heap edit_generic_extends)

lemma edit_file_extends:
  "edit_file lb a w = (r, w') \<Longrightarrow> \<exists>new. heap w' = heap w @ new"
  by (auto simp: edit_file_def alloc_def Let_def simp del: read_line.simps
           split: sum.splits prod.splits if_splits pyval.splits
           dest!: read_line_heap edit_generic_extends)

lemma handle_edit_extends:
  assumes "getitem (heap w) a ''name'' \<noteq> Inr (VStr ''write_todos'')"
    and "handle_edit lb a w = (r, w')"
  shows "\<exists>new. heap w' = heap w @ new"
  using assms
  by (auto simp: handle_edit_def split: sum.splits if_splits
           dest: edit_task_extends edit_file_extends edit_generic_extends)

lemma prompt_decision_extends:
  assumes "getitem h a ''name'' \<noteq> Inr (VStr ''write_todos'')"
  shows "prompt_decision lb a allowed h ins = (r, w') \<Longrightarrow> \<exists>new. heap w' = h @ new"
proof (induction ins)
  case Nil
  then show ?case by auto
next
  case (Cons i ins)
  show ?case
  proof (cases i)
    case EndOfInput
    with Cons.prems show ?thesis by auto
  next
    case (Line answer)
    with Cons assms show ?thesis
      using handle_edit_extends [of "\<lparr>heap = h, stdin = ins\<rparr>" a lb r w']
      by (auto simp: Let_def split: if_splits)
  qed
qed

lemma review_of_other_tools_keeps_the_store:
  assumes "getitem (heap w) a ''name'' \<noteq> Inr (VStr ''write_todos'')"
    and "cli_review_action lb a rc context w = (r, w')"
  shows "\<exists>new. heap w' = heap w @ new"
proof -
  from assms(2) have
    "heap w' = heap w
     \<or> (\<exists>allowed. prompt_decision lb a allowed (heap w) (stdin w) = (r, w'))"
    by (auto simp: cli_review_action_def Let_def split: sum.splits)
  then show ?thesis
  proof
    assume "heap w' = heap w"
    then show ?thesis by simp
  next
    assume "\<exists>allowed. prompt_decision lb a allowed (heap w) (stdin w) = (r, w')"
    then obtain allowed where "prompt_decision lb a allowed (heap w) (stdin w) = (r, w')" ..
    from prompt_decision_extends [OF assms(1) this] show ?thesis .
  qed
qed

subsection \<open>Editing a todo list in place\<close>

text \<open>
  Claim C4 states that a review call never changes the action request it is given. The
  \<open>write_todos\<close> editing flow does change it: \<open>todos\<close> is the list object of the request
  itself, so after add-todo the caller's request has two todos instead of one, after
  remove-todo none, and after change-priority its todo carries the new priority. The
  evaluation below reads the request before and after each of the three calls.
\<close>

theorem edit_todos_changes_the_reviewed_request:
  "deep_value 4 three_actions (VRef 0)
     = JObj [(''name'', JStr ''write_todos''),
             (''args'', JObj [(''todos'',
                JArr [JObj [(''task'', JStr ''Review contracts''), (''status'', JStr ''pending'')]])])]
   \<and> fst (cli_review_action plain_lib (VRef 0) full_review None
        \<lparr>heap = three_actions,
         stdin = [Line ''2'', Line ''1'', Line ''New task'', Line ''high'']\<rparr>)
     = Inr (Edit (VStr ''write_todos'') (VRef 9))
   \<and> deep_value 4
        (heap (snd (cli_review_action plain_lib (VRef 0) full_review None
           \<lparr>heap = three_actions,
            stdin = [Line ''2'', Line ''1'', Line ''New task'', Line ''high'']\<rparr>))) (VRef 0)
     = JObj [(''name'', JStr ''write_todos''),
             (''args'', JObj [(''todos'',
                JArr [JObj [(''task'', JStr ''Review contracts''), (''status'', JStr ''pending'')],
                      JObj [(''task'', JStr ''New task''), (''status'', JStr ''pending''),
                            (''priority'', JStr ''high'')]])])]
   \<and> deep_value 4
        (heap (snd (cli_review_action plain_lib (VRef 0) full_review None
           \<lparr>heap = three_actions, stdin = [Line ''2'', Line ''2'', Line ''1'']\<rparr>))) (VRef 0)
     = JObj [(''name'', JStr ''write_todos''), (''args'', JObj [(''todos'', JArr [])])]
   \<and> deep_value 4
        (heap (snd (cli_review_action plain_lib (VRef 0) full_review None
           \<lparr>heap = three_actions,
            stdin = [Line ''2'', Line ''3'', Line ''1'', Line ''critical'']\<rparr>))) (VRef 0)
     = JObj [(''name'', JStr ''write_todos''),
             (''args'', JObj [(''todos'',
                JArr [JObj [(''task'', JStr ''Review contracts''), (''status'', JStr ''pending''),
                            (''priority'', JStr ''critical'')]])])]"
  by (simp add: review_eval py_int_def int_strip_def is_int_space_def is_digit_def
        max_str_digits_def eval_nat_numeral)


subsection \<open>A todo number that is not a number\<close>

text \<open>
  Claim C5 states that malformed input never leaves a review call as an error. In the
  remove-todo and change-priority prompts the answer goes through \<open>int()\<close> outside any
  \<open>try\<close>: for the answers "abc" and "first" the call ends with \<open>ValueError\<close>.
\<close>

theorem non_numeric_todo_number_raises:
  "fst (cli_review_action plain_lib (VRef 0) full_review None
        \<lparr>heap = three_actions, stdin = [Line ''2'', Line ''2'', Line ''abc'']\<rparr>)
     = Inl ValueError
   \<and> fst (cli_review_action plain_lib (VRef 0) full_review None
        \<lparr>heap = three_actions, stdin = [Line ''2'', Line ''3'', Line ''first'']\<rparr>)
     = Inl ValueError"
  by (simp add: review_eval py_int_def int_strip_def is_int_space_def is_digit_def
        max_str_digits_def)

section \<open>Properties of the audit log\<close>

subsection \<open>Auxiliary facts\<close>

lemma strip_not_empty: "\<not> is_space c \<Longrightarrow> strip (c # cs) \<noteq> []"
  by (simp add: strip_def dropWhile_append3)

lemma universal_newlines_id: "CHR 0x0D \<notin> set s \<Longrightarrow> universal_newlines s = s"
  by (induction s rule: universal_newlines.induct) auto

lemma split_lines_line:
  "LF \<notin> set l \<Longrightarrow> split_lines cur (l @ LF # rest) = (cur @ l @ [LF]) # split_lines [] rest"
  by (induction l arbitrary: cur) auto

lemma split_lines_concat:
  "\<forall>l \<in> set ls. LF \<notin> set l \<Longrightarrow>
     split_lines [] (concat (map (\<lambda>l. l @ [LF]) ls)) = map (\<lambda>l. l @ [LF]) ls"
proof (induction ls)
  case Nil
  then show ?case by simp
next
  case (Cons l ls)
  then have "LF \<notin> set l" by simp
  from split_lines_line [OF this, of "[]" "concat (map (\<lambda>l. l @ [LF]) ls)"] Cons
  show ?case by simp
qed

lemma file_lines_of_records:
  assumes "\<forall>l \<in> set ls. CHR 0x0D \<notin> set l \<and> LF \<notin> set l"
  shows "file_lines (concat (map (\<lambda>l. l @ [LF]) ls)) = map (\<lambda>l. l @ [LF]) ls"
proof -
  from assms have "CHR 0x0D \<notin> set (concat (map (\<lambda>l. l @ [LF]) ls))" by auto
  then have "universal_newlines (concat (map (\<lambda>l. l @ [LF]) ls)) = concat (map (\<lambda>l. l @ [LF]) ls)"
    by (rule universal_newlines_id)
  with assms show ?thesis by (simp add: file_lines_def split_lines_concat)
qed

lemma log_reviews_Some:
  "log_reviews dumps calls (Some body)
     = Some (body @ concat (map (\<lambda>c. dumps (entry_of c) @ [LF]) calls))"
  by (induction calls arbitrary: body) (simp_all add: log_reviews_def log_review_def entry_of_def)

lemma log_reviews_None:
  "calls \<noteq> [] \<Longrightarrow>
     log_reviews dumps calls None = Some (concat (map (\<lambda>c. dumps (entry_of c) @ [LF]) calls))"
proof (cases calls)
  case Nil
  then show "calls \<noteq> [] \<Longrightarrow> ?thesis" by simp
next
  case (Cons c cs)
  have "log_reviews dumps (c # cs) None = log_reviews dumps cs (Some (dumps (entry_of c) @ [LF]))"
    by (simp add: log_reviews_def log_review_def entry_of_def)
  with Cons show ?thesis by (simp add: log_reviews_Some)
qed

lemma counted_bump: "counted (bump m k) = counted m + 1"
  unfolding counted_def bump_def
  by (induction m) (auto simp: AList.update.simps)

lemma count_entry_logged:
  "\<exists>stats1. count_entry (entry_of c) stats = Inr stats1
     \<and> total_reviews stats1 = total_reviews stats + 1
     \<and> counted (by_decision stats1) = counted (by_decision stats) + 1
     \<and> counted (by_tool stats1) = counted (by_tool stats) + 1"
  by (simp add: count_entry_def count_field_def entry_of_def log_entry_def counted_bump)

lemma replay_logged:
  assumes "\<forall>c \<in> set calls. loads (dumps (entry_of c) @ [LF]) = Some (entry_of c)"
  shows "\<exists>stats1. replay loads (map (\<lambda>c. dumps (entry_of c) @ [LF]) calls) stats = Inr stats1
     \<and> total_reviews stats1 = total_reviews stats + int (length calls)
     \<and> counted (by_decision stats1) = counted (by_decision stats) + int (length calls)
     \<and> counted (by_tool stats1) = counted (by_tool stats) + int (length calls)"
  using assms
proof (induction calls arbitrary: stats)
  case Nil
  then show ?case by simp
next
  case (Cons c calls)
  from count_entry_logged [of c stats] obtain s1 where
    s1: "count_entry (entry_of c) stats = Inr s1"
        "total_reviews s1 = total_reviews stats + 1"
        "counted (by_decision s1) = counted (by_decision stats) + 1"
        "counted (by_tool s1) = counted (by_tool stats) + 1"
    by (elim exE conjE)
  from Cons.prems have "\<forall>c \<in> set calls. loads (dumps (entry_of c) @ [LF]) = Some (entry_of c)"
    by simp
  from Cons.IH [OF this, of s1] obtain s2 where
    s2: "replay loads (map (\<lambda>c. dumps (entry_of c) @ [LF]) calls) s1 = Inr s2"
        "total_reviews s2 = total_reviews s1 + int (length calls)"
        "counted (by_decision s2) = counted (by_decision s1) + int (length calls)"
        "counted (by_tool s2) = counted (by_tool s1) + int (length calls)"
    by (elim exE conjE)
  from Cons.prems have "loads (dumps (entry_of c) @ [LF]) = Some (entry_of c)" by simp
  with s1 s2 show ?case by simp
qed

lemmas audit_eval =
  get_review_stats_def file_lines_def initial_stats_def count_entry_def count_field_def bump_def
  sample_loads_def sample_dumps_def entry_of_def log_entry_def decision_type_def
  approve_call_def reject_call_def approve_line_def reject_line_def
  log_reviews_def log_review_def


subsection \<open>Empty lines in the log\<close>

text \<open>
  Claim C6 says that empty lines of the log are skipped when the statistics are read.
  \<open>get_review_stats\<close> has no test for them and passes every line to \<open>json.loads\<close>: on a
  log of two valid records with an empty line between them it raises \<open>JSONDecodeError\<close>,
  where the same two records alone give the aggregates, and where \<open>get_audit_logs\<close>, which
  skips blank lines, reads both records from the same file.
\<close>

theorem blank_line_makes_stats_raise:
  "get_review_stats sample_loads (Some (approve_line @ [LF] @ [LF] @ reject_line @ [LF]))
     = Inl JSONDecodeError
   \<and> get_review_stats sample_loads (Some (approve_line @ [LF] @ reject_line @ [LF]))
     = Inr (Some \<lparr>total_reviews = 2,
                   by_decision = [(KStr ''approve'', 1), (KStr ''edit'', 0), (KStr ''reject'', 1)],
                   by_tool = [(KStr ''task'', 1), (KStr ''write_file'', 1)],
                   by_reviewer = [(KStr ''alice'', 1), (KStr ''bob'', 1)]\<rparr>)
   \<and> get_audit_logs sample_loads (Some (approve_line @ [LF] @ [LF] @ reject_line @ [LF]))
     = Inr ([entry_of approve_call, entry_of reject_call], 2)"
proof (intro conjI)
  show "get_review_stats sample_loads (Some (approve_line @ [LF] @ [LF] @ reject_line @ [LF]))
     = Inl JSONDecodeError"
    by (simp add: audit_eval)
  show "get_review_stats sample_loads (Some (approve_line @ [LF] @ reject_line @ [LF]))
     = Inr (Some \<lparr>total_reviews = 2,
                   by_decision = [(KStr ''approve'', 1), (KStr ''edit'', 0), (KStr ''reject'', 1)],
                   by_tool = [(KStr ''task'', 1), (KStr ''write_file'', 1)],
                   by_reviewer = [(KStr ''alice'', 1), (KStr ''bob'', 1)]\<rparr>)"
    by (simp add: audit_eval)
  have blank: "strip [LF] = []" by (simp add: strip_def is_space_def)
  have a: "strip (approve_line @ [LF]) \<noteq> []"
    unfolding approve_line_def by (simp add: strip_not_empty is_space_def)
  have r: "strip (reject_line @ [LF]) \<noteq> []"
    unfolding reject_line_def by (simp add: strip_not_empty is_space_def)
  have lines: "file_lines (approve_line @ [LF] @ [LF] @ reject_line @ [LF])
                 = [approve_line @ [LF], [LF], reject_line @ [LF]]"
    by (simp add: file_lines_def approve_line_def reject_line_def)
  have la: "sample_loads (approve_line @ [LF]) = Some (entry_of approve_call)"
    by (simp add: sample_loads_def)
  have lr: "sample_loads (reject_line @ [LF]) = Some (entry_of reject_call)"
    by (simp add: sample_loads_def approve_line_def reject_line_def)
  show "get_audit_logs sample_loads (Some (approve_line @ [LF] @ [LF] @ reject_line @ [LF]))
     = Inr ([entry_of approve_call, entry_of reject_call], 2)"
    unfolding get_audit_logs_def option.case lines by (simp add: blank a r la lr)
qed


subsection \<open>Counting the logged reviews\<close>

text \<open>
  Claim C7 as stated fails for \<open>N = 0\<close>: with nothing logged the store is still absent and
  \<open>get_review_stats\<close> returns the empty dict, which has no \<open>total_reviews\<close>.
\<close>

theorem no_reviews_counterexample:
  "get_review_stats sample_loads (log_reviews sample_dumps [] None) = Inr None"
  by (simp add: get_review_stats_def log_reviews_def)


text \<open>
  Claim C7, amended. Starting from an absent audit store, after logging \<open>N \<ge> 1\<close> review
  decisions with \<open>log_review\<close>, \<open>get_review_stats\<close> returns an aggregate with
  \<open>total_reviews = N\<close>, the \<open>by_decision\<close> counts summing to \<open>N\<close> and the \<open>by_tool\<close> counts
  summing to \<open>N\<close>. This holds for every \<open>json.dumps\<close> and \<open>json.loads\<close> that write each
  logged record on one line and read it back.
\<close>

theorem stats_count_logged_reviews:
  assumes "calls \<noteq> []"
    and "\<forall>c \<in> set calls.
           CHR 0x0D \<notin> set (dumps (entry_of c)) \<and> LF \<notin> set (dumps (entry_of c))
           \<and> loads (dumps (entry_of c) @ [LF]) = Some (entry_of c)"
  shows "\<exists>stats. get_review_stats loads (log_reviews dumps calls None) = Inr (Some stats)
           \<and> total_reviews stats = int (length calls)
           \<and> counted (by_decision stats) = int (length calls)
           \<and> counted (by_tool stats) = int (length calls)"
proof -
  let ?ls = "map (\<lambda>c. dumps (entry_of c)) calls"
  have logged: "log_reviews dumps calls None = Some (concat (map (\<lambda>l. l @ [LF]) ?ls))"
    using log_reviews_None [OF assms(1)] by (simp add: comp_def)
  from assms(2) have "\<forall>l \<in> set ?ls. CHR 0x0D \<notin> set l \<and> LF \<notin> set l" by auto
  from file_lines_of_records [OF this]
  have lines: "file_lines (concat (map (\<lambda>l. l @ [LF]) ?ls))
                 = map (\<lambda>c. dumps (entry_of c) @ [LF]) calls"
    by (simp add: comp_def)
  from assms(2) have "\<forall>c \<in> set calls. loads (dumps (entry_of c) @ [LF]) = Some (entry_of c)"
    by simp
  from replay_logged [OF this, of initial_stats] obtain stats where
    r: "replay loads (map (\<lambda>c. dumps (entry_of c) @ [LF]) calls) initial_stats = Inr stats"
       "total_reviews stats = total_reviews initial_stats + int (length calls)"
       "counted (by_decision stats) = counted (by_decision initial_stats) + int (length calls)"
       "counted (by_tool stats) = counted (by_tool initial_stats) + int (length calls)"
    by (elim exE conjE)
  have "get_review_stats loads (log_reviews dumps calls None) = Inr (Some stats)"
    using logged lines r(1) by (simp add: get_review_stats_def)
  with r(2,3,4) show ?thesis by (simp add: initial_stats_def counted_def)
qed

theorem stats_count_logged_reviews_witness:
  "[approve_call, reject_call] \<noteq> []
   \<and> CHR 0x0D \<notin> set (sample_dumps (entry_of approve_call))
   \<and> LF \<notin> set (sample_dumps (entry_of approve_call))
   \<and> sample_loads (sample_dumps (entry_of approve_call) @ [LF]) = Some (entry_of approve_call)
   \<and> CHR 0x0D \<notin> set (sample_dumps (entry_of reject_call))
   \<and> LF \<notin> set (sample_dumps (entry_of reject_call))
   \<and> sample_loads (sample_dumps (entry_of reject_call) @ [LF]) = Some (entry_of reject_call)
   \<and> (\<exists>stats. get_review_stats sample_loads
                  (log_reviews sample_dumps [approve_call, reject_call] None) = Inr (Some stats)
           \<and> total_reviews stats = 2
           \<and> counted (by_decision stats) = 2
           \<and> counted (by_tool stats) = 2)"
proof -
  have a: "[approve_call, reject_call] \<noteq> []" by simp
  have b: "CHR 0x0D \<notin> set (sample_dumps (entry_of approve_call))
   \<and> LF \<notin> set (sample_dumps (entry_of approve_call))
   \<and> sample_loads (sample_dumps (entry_of approve_call) @ [LF]) = Some (entry_of approve_call)
   \<and> CHR 0x0D \<notin> set (sample_dumps (entry_of reject_call))
   \<and> LF \<notin> set (sample_dumps (entry_of reject_call))
   \<and> sample_loads (sample_dumps (entry_of reject_call) @ [LF]) = Some (entry_of reject_call)"
    by (simp add: sample_loads_def sample_dumps_def entry_of_def log_entry_def decision_type_def
          approve_call_def reject_call_def approve_line_def reject_line_def)
  then have c: "\<forall>c \<in> set [approve_call, reject_call].
         CHR 0x0D \<notin> set (sample_dumps (entry_of c)) \<and> LF \<notin> set (sample_dumps (entry_of c))
         \<and> sample_loads (sample_dumps (entry_of c) @ [LF]) = Some (entry_of c)"
    by simp
  from stats_count_logged_reviews [OF a c] a b show ?thesis by simp
qed

end
